theory Spec2Isabelle
  imports Main
begin

section \<open>Conway's Game of Life on a bounded grid: the engine of src/app/page.tsx\<close>

text \<open>
  The engine consists of \<open>createInitialGrid\<close> (the spec's construct), \<open>getNeighbors\<close>
  (neighbors-of), \<open>createNextGeneration\<close> (step) with its helpers \<open>getNextCellState\<close>,
  \<open>countLiveNeighbors\<close>, \<open>shouldSurvive\<close>, \<open>shouldBeBorn\<close>, and \<open>areGridsEqual\<close> (equals).

  Cells are JavaScript objects: a cell's \<open>neighbors\<close> array holds references to other cell
  objects, and both \<open>createInitialGrid\<close> and \<open>createNextGeneration\<close> assign fields of cells
  after creating them. The model therefore keeps an explicit store of cell objects: a
  reference is an address, the store is the list of all cell objects allocated so far,
  allocation appends to it. Arrays (\<open>cells\<close>, its rows, \<open>neighbors\<close>) are never shared
  between two owners that both mutate them, so they are lists of references.

  JavaScript numbers are IEEE doubles. The numbers of the engine are integers, and the model
  takes them as mathematical integers where the code's operations on them are exact:
  comparisons, and the additions of a direction to a coordinate, which in a grid is below
  the length of an array. The one addition that can round, \<open>generation + 1\<close>, is modelled with
  its rounding (\<open>addOne\<close>), and \<open>Array(n)\<close> with its RangeError for a negative length and for
  a length of \<open>2^32\<close> or more. The exhaustion of memory is not modelled.
\<close>

subsection \<open>Data model (src/types/gameOfLife)\<close>

datatype CellState = Alive | Dead

type_synonym ref = nat

text \<open>An element of a \<open>neighbors\<close> array is a reference, or \<open>undefined\<close> (\<open>None\<close>) when it
  was read past the end of a row.\<close>

record Cell =
  state :: CellState
  cell_x :: int
  cell_y :: int
  neighbors :: "ref option list"

record Grid =
  cells :: "ref list list"
  width :: int
  height :: int
  generation :: int

type_synonym heap = "Cell list"

text \<open>The two exceptions the engine can raise: \<open>Array(n)\<close> with a negative length, and a
  property access on \<open>undefined\<close>.\<close>

datatype error = RangeError | TypeError

subsection \<open>Numbers\<close>

text \<open>The number of binary digits of a positive \<open>n\<close>.\<close>

function bitLength :: "int \<Rightarrow> nat" where
  "bitLength n = (if n \<le> 0 then 0 else Suc (bitLength (n div 2)))"
  by pat_completeness auto
termination
  by (relation "measure nat") auto

text \<open>The double nearest to the integer \<open>n\<close>, ties going to the even significand: a double has
  a significand of 53 binary digits, so the doubles around \<open>n\<close> are the multiples of
  \<open>u = 2 ^ (bitLength \<bar>n\<bar> - 53)\<close>. (The integers this is applied to are far below the
  largest double.)\<close>

definition roundToDouble :: "int \<Rightarrow> int" where
  "roundToDouble n =
     (let u = 2 ^ (bitLength \<bar>n\<bar> - 53); q = n div u; r = n mod u in
      if 2 * r < u then q * u
      else if 2 * r > u then (q + 1) * u
      else if even q then q * u else (q + 1) * u)"

text \<open>\<open>x + 1\<close> on doubles, for an integer \<open>x\<close> that is a double.\<close>

definition addOne :: "int \<Rightarrow> int" where
  "addOne x = roundToDouble (x + 1)"

text \<open>\<open>Array(n)\<close> raises a RangeError unless \<open>n\<close> is an integer from \<open>0\<close> to \<open>2^32 - 1\<close>.\<close>

definition maxArrayLength :: int where
  "maxArrayLength = 4294967295"

subsection \<open>Store and array primitives\<close>

definition alloc :: "heap \<Rightarrow> Cell \<Rightarrow> heap \<times> ref" where
  "alloc h c = (h @ [c], length h)"

text \<open>\<open>xs[i]\<close> in JavaScript: \<open>undefined\<close> outside the array, also for a negative index.\<close>

definition index_opt :: "'a list \<Rightarrow> int \<Rightarrow> 'a option" where
  "index_opt xs i = (if 0 \<le> i \<and> i < int (length xs) then Some (xs ! nat i) else None)"

subsection \<open>getNeighbors\<close>

definition directions :: "(int \<times> int) list" where
  "directions = [(-1, -1), (-1, 0), (-1, 1), (0, -1), (0, 1), (1, -1), (1, 0), (1, 1)]"

text \<open>The loop over the directions, for a cell at \<open>(cx, cy)\<close>; the result lists the pushed
  elements in the order of the pushes. \<open>cells[newY][newX]\<close> raises when \<open>cells[newY]\<close> is
  \<open>undefined\<close>, and yields \<open>undefined\<close> when only the column is out of range.\<close>

fun neighborsLoop ::
  "ref list list \<Rightarrow> int \<Rightarrow> int \<Rightarrow> int \<Rightarrow> int \<Rightarrow> (int \<times> int) list \<Rightarrow> error + ref option list" where
  "neighborsLoop cs cx cy w hg [] = Inr []"
| "neighborsLoop cs cx cy w hg ((dx, dy) # ds) =
     (let newX = cx + dx; newY = cy + dy in
      if newX \<ge> 0 \<and> newX < w \<and> newY \<ge> 0 \<and> newY < hg then
        (case index_opt cs newY of
           None \<Rightarrow> Inl TypeError
         | Some row \<Rightarrow>
             (case neighborsLoop cs cx cy w hg ds of
                Inl e \<Rightarrow> Inl e
              | Inr ns \<Rightarrow> Inr (index_opt row newX # ns)))
      else neighborsLoop cs cx cy w hg ds)"

definition getNeighbors :: "heap \<Rightarrow> ref list list \<Rightarrow> ref \<Rightarrow> int \<Rightarrow> int \<Rightarrow> error + ref option list" where
  "getNeighbors h cs c w hg = neighborsLoop cs (cell_x (h ! c)) (cell_y (h ! c)) w hg directions"

text \<open>The two nested loops \<open>cell.neighbors = getNeighbors(cells, cell, width, height)\<close>.\<close>

fun assignRow :: "heap \<Rightarrow> ref list list \<Rightarrow> int \<Rightarrow> int \<Rightarrow> ref list \<Rightarrow> error + heap" where
  "assignRow h cs w hg [] = Inr h"
| "assignRow h cs w hg (c # row) =
     (case getNeighbors h cs c w hg of
        Inl e \<Rightarrow> Inl e
      | Inr ns \<Rightarrow> assignRow (h[c := (h ! c)\<lparr>neighbors := ns\<rparr>]) cs w hg row)"

fun assignNeighbors :: "heap \<Rightarrow> ref list list \<Rightarrow> int \<Rightarrow> int \<Rightarrow> ref list list \<Rightarrow> error + heap" where
  "assignNeighbors h cs w hg [] = Inr h"
| "assignNeighbors h cs w hg (row # rows) =
     (case assignRow h cs w hg row of
        Inl e \<Rightarrow> Inl e
      | Inr h' \<Rightarrow> assignNeighbors h' cs w hg rows)"

subsection \<open>createInitialGrid\<close>

text \<open>\<open>Array(width).fill(null).map((_, x) => ({state: 'dead', x, y, neighbors: []}))\<close>,
  for the column indices \<open>xs\<close>.\<close>

fun newRow :: "heap \<Rightarrow> int \<Rightarrow> int list \<Rightarrow> heap \<times> ref list" where
  "newRow h y [] = (h, [])"
| "newRow h y (x # xs) =
     (let (h1, r) = alloc h \<lparr>state = Dead, cell_x = x, cell_y = y, neighbors = []\<rparr>;
          (h2, rs) = newRow h1 y xs
      in (h2, r # rs))"

text \<open>The outer \<open>map\<close> over the row indices \<open>ys\<close>: each callback evaluates \<open>Array(width)\<close>,
  which raises a RangeError for a width that is no array length.\<close>

fun newRows :: "heap \<Rightarrow> int \<Rightarrow> int list \<Rightarrow> error + heap \<times> ref list list" where
  "newRows h w [] = Inr (h, [])"
| "newRows h w (y # ys) =
     (if w < 0 \<or> maxArrayLength < w then Inl RangeError
      else
        (let (h1, row) = newRow h y (map int [0..<nat w]) in
         case newRows h1 w ys of
           Inl e \<Rightarrow> Inl e
         | Inr (h2, rows) \<Rightarrow> Inr (h2, row # rows)))"

text \<open>The loop over \<open>aliveCells\<close>. Its guard tests the upper bounds only.\<close>

fun setAlive :: "heap \<Rightarrow> ref list list \<Rightarrow> int \<Rightarrow> int \<Rightarrow> Cell list \<Rightarrow> error + heap" where
  "setAlive h cs w hg [] = Inr h"
| "setAlive h cs w hg (aliveCell # rest) =
     (if cell_x aliveCell < w \<and> cell_y aliveCell < hg then
        (case index_opt cs (cell_y aliveCell) of
           None \<Rightarrow> Inl TypeError
         | Some row \<Rightarrow>
             (case index_opt row (cell_x aliveCell) of
                None \<Rightarrow> Inl TypeError
              | Some r \<Rightarrow> setAlive (h[r := (h ! r)\<lparr>state := Alive\<rparr>]) cs w hg rest))
      else setAlive h cs w hg rest)"

definition createInitialGrid :: "heap \<Rightarrow> int \<Rightarrow> int \<Rightarrow> Cell list \<Rightarrow> error + heap \<times> Grid" where
  "createInitialGrid h w hg aliveCells =
     (if hg < 0 \<or> maxArrayLength < hg then Inl RangeError
      else
        (case newRows h w (map int [0..<nat hg]) of
           Inl e \<Rightarrow> Inl e
         | Inr (h1, cs) \<Rightarrow>
             (case setAlive h1 cs w hg aliveCells of
                Inl e \<Rightarrow> Inl e
              | Inr h2 \<Rightarrow>
                  (case assignNeighbors h2 cs w hg cs of
                     Inl e \<Rightarrow> Inl e
                   | Inr h3 \<Rightarrow>
                       Inr (h3, \<lparr>cells = cs, width = w, height = hg, generation = 0\<rparr>)))))"

subsection \<open>createNextGeneration\<close>

text \<open>\<open>cell.neighbors.filter(neighbor => neighbor.state === 'alive').length\<close>: the callback
  raises on an \<open>undefined\<close> element.\<close>

fun countLive :: "heap \<Rightarrow> ref option list \<Rightarrow> error + nat" where
  "countLive h [] = Inr 0"
| "countLive h (None # ns) = Inl TypeError"
| "countLive h (Some r # ns) =
     (case countLive h ns of
        Inl e \<Rightarrow> Inl e
      | Inr n \<Rightarrow> Inr (if state (h ! r) = Alive then Suc n else n))"

definition countLiveNeighbors :: "heap \<Rightarrow> ref \<Rightarrow> error + nat" where
  "countLiveNeighbors h c = countLive h (neighbors (h ! c))"

definition shouldSurvive :: "heap \<Rightarrow> ref \<Rightarrow> error + bool" where
  "shouldSurvive h c =
     (case countLiveNeighbors h c of
        Inl e \<Rightarrow> Inl e
      | Inr liveNeighbors \<Rightarrow>
          Inr (state (h ! c) = Alive \<and> (liveNeighbors = 2 \<or> liveNeighbors = 3)))"

definition shouldBeBorn :: "heap \<Rightarrow> ref \<Rightarrow> error + bool" where
  "shouldBeBorn h c =
     (case countLiveNeighbors h c of
        Inl e \<Rightarrow> Inl e
      | Inr liveNeighbors \<Rightarrow> Inr (state (h ! c) = Dead \<and> liveNeighbors = 3))"

text \<open>\<open>shouldSurvive(cell) || shouldBeBorn(cell) ? 'alive' : 'dead'\<close>, with the short
  circuit of \<open>||\<close>.\<close>

definition getNextCellState :: "heap \<Rightarrow> ref \<Rightarrow> error + CellState" where
  "getNextCellState h c =
     (case shouldSurvive h c of
        Inl e \<Rightarrow> Inl e
      | Inr True \<Rightarrow> Inr Alive
      | Inr False \<Rightarrow>
          (case shouldBeBorn h c of
             Inl e \<Rightarrow> Inl e
           | Inr b \<Rightarrow> Inr (if b then Alive else Dead)))"

text \<open>\<open>row.map(cell => ({...cell, state}))\<close>: a new object per cell, with the old cell's
  fields (the old \<open>neighbors\<close> array among them) and the new state.\<close>

fun nextRow :: "heap \<Rightarrow> ref list \<Rightarrow> error + heap \<times> ref list" where
  "nextRow h [] = Inr (h, [])"
| "nextRow h (c # row) =
     (case getNextCellState h c of
        Inl e \<Rightarrow> Inl e
      | Inr s \<Rightarrow>
          (let (h1, r) = alloc h ((h ! c)\<lparr>state := s\<rparr>) in
           case nextRow h1 row of
             Inl e \<Rightarrow> Inl e
           | Inr (h2, rs) \<Rightarrow> Inr (h2, r # rs)))"

fun nextRows :: "heap \<Rightarrow> ref list list \<Rightarrow> error + heap \<times> ref list list" where
  "nextRows h [] = Inr (h, [])"
| "nextRows h (row # rows) =
     (case nextRow h row of
        Inl e \<Rightarrow> Inl e
      | Inr (h1, newCellRow) \<Rightarrow>
          (case nextRows h1 rows of
             Inl e \<Rightarrow> Inl e
           | Inr (h2, newCellRows) \<Rightarrow> Inr (h2, newCellRow # newCellRows)))"

definition createNextGeneration :: "heap \<Rightarrow> Grid \<Rightarrow> error + heap \<times> Grid" where
  "createNextGeneration h currentGrid =
     (case nextRows h (cells currentGrid) of
        Inl e \<Rightarrow> Inl e
      | Inr (h1, newCells) \<Rightarrow>
          (case assignNeighbors h1 newCells (width currentGrid) (height currentGrid) newCells of
             Inl e \<Rightarrow> Inl e
           | Inr h2 \<Rightarrow>
               Inr (h2, currentGrid\<lparr>cells := newCells, generation := addOne (generation currentGrid)\<rparr>)))"

subsection \<open>areGridsEqual\<close>

text \<open>\<open>grid.cells[y][x].state\<close>: raises when the row or the cell is \<open>undefined\<close>.\<close>

definition stateAt :: "heap \<Rightarrow> Grid \<Rightarrow> int \<Rightarrow> int \<Rightarrow> error + CellState" where
  "stateAt h g x y =
     (case index_opt (cells g) y of
        None \<Rightarrow> Inl TypeError
      | Some row \<Rightarrow>
          (case index_opt row x of
             None \<Rightarrow> Inl TypeError
           | Some r \<Rightarrow> Inr (state (h ! r))))"

text \<open>The inner loop \<open>for (let x = ...; x < grid1.width; x++)\<close>: \<open>Inr False\<close> is the early
  \<open>return false\<close>, \<open>Inr True\<close> the normal end of the loop.\<close>

function equalRowFrom :: "heap \<Rightarrow> Grid \<Rightarrow> Grid \<Rightarrow> int \<Rightarrow> int \<Rightarrow> error + bool" where
  "equalRowFrom h grid1 grid2 y x =
     (if x < width grid1 then
        (case stateAt h grid1 x y of
           Inl e \<Rightarrow> Inl e
         | Inr s1 \<Rightarrow>
             (case stateAt h grid2 x y of
                Inl e \<Rightarrow> Inl e
              | Inr s2 \<Rightarrow> if s1 \<noteq> s2 then Inr False else equalRowFrom h grid1 grid2 y (x + 1)))
      else Inr True)"
  by pat_completeness auto
termination
  by (relation "measure (\<lambda>(h, grid1, grid2, y, x). nat (width grid1 - x))") auto

function equalRowsFrom :: "heap \<Rightarrow> Grid \<Rightarrow> Grid \<Rightarrow> int \<Rightarrow> error + bool" where
  "equalRowsFrom h grid1 grid2 y =
     (if y < height grid1 then
        (case equalRowFrom h grid1 grid2 y 0 of
           Inl e \<Rightarrow> Inl e
         | Inr False \<Rightarrow> Inr False
         | Inr True \<Rightarrow> equalRowsFrom h grid1 grid2 (y + 1))
      else Inr True)"
  by pat_completeness auto
termination
  by (relation "measure (\<lambda>(h, grid1, grid2, y). nat (height grid1 - y))") auto

definition areGridsEqual :: "heap \<Rightarrow> Grid \<Rightarrow> Grid \<Rightarrow> error + bool" where
  "areGridsEqual h grid1 grid2 =
     (if width grid1 \<noteq> width grid2 \<or> height grid1 \<noteq> height grid2 then Inr False
      else equalRowsFrom h grid1 grid2 0)"

subsection \<open>The driver's alive cells\<close>

text \<open>The objects the driver collects in \<open>aliveCells\<close> and passes to \<open>createInitialGrid\<close>:
  \<open>{ state: 'alive', x, y, neighbors: [] }\<close>.\<close>

definition aliveAt :: "int \<Rightarrow> int \<Rightarrow> Cell" where
  "aliveAt a b = \<lparr>state = Alive, cell_x = a, cell_y = b, neighbors = []\<rparr>"

section \<open>Specification-level notions\<close>

subsection \<open>Well-formed grids\<close>

text \<open>The shape part of the Grid invariant: \<open>cells\<close> has \<open>height\<close> rows of \<open>width\<close> cells each.\<close>

definition grid_shape :: "Grid \<Rightarrow> bool" where
  "grid_shape g \<longleftrightarrow>
     int (length (cells g)) = height g \<and> (\<forall>row\<in>set (cells g). int (length row) = width g)"

text \<open>The Grid invariant, relative to the store: the shape; every reference in \<open>cells\<close>
  denotes an allocated cell; the cell at index \<open>[y][x]\<close> carries the coordinates \<open>(x, y)\<close>;
  the neighbor list of every cell of the grid contains only cells of this same grid.\<close>

definition grid_inv :: "heap \<Rightarrow> Grid \<Rightarrow> bool" where
  "grid_inv h g \<longleftrightarrow>
     grid_shape g \<and>
     (\<forall>r\<in>set (concat (cells g)). r < length h) \<and>
     (\<forall>y<length (cells g). \<forall>x<length (cells g ! y).
        cell_x (h ! (cells g ! y ! x)) = int x \<and> cell_y (h ! (cells g ! y ! x)) = int y) \<and>
     (\<forall>r\<in>set (concat (cells g)). set (neighbors (h ! r)) \<subseteq> Some ` set (concat (cells g)))"

text \<open>Every cell of the grid is dead.\<close>

definition allDead :: "heap \<Rightarrow> Grid \<Rightarrow> bool" where
  "allDead h g \<longleftrightarrow> (\<forall>r\<in>set (concat (cells g)). state (h ! r) = Dead)"

subsection \<open>The adjacency rule\<close>

text \<open>A direction \<open>d\<close> leads from \<open>(cx, cy)\<close> to a coordinate inside the grid.\<close>

definition inBounds :: "int \<Rightarrow> int \<Rightarrow> int \<Rightarrow> int \<Rightarrow> int \<times> int \<Rightarrow> bool" where
  "inBounds w hg cx cy d \<longleftrightarrow> 0 \<le> cx + fst d \<and> cx + fst d < w \<and> 0 \<le> cy + snd d \<and> cy + snd d < hg"

text \<open>The adjacency rule in the spec's words: the cells one step away from \<open>(cx, cy)\<close> in the
  directions \<open>ds\<close>, a direction being included only if the resulting coordinate is within
  the bounds, in the order of \<open>ds\<close>.\<close>

definition adjacent :: "ref list list \<Rightarrow> int \<Rightarrow> int \<Rightarrow> int \<Rightarrow> int \<Rightarrow> (int \<times> int) list \<Rightarrow> ref option list" where
  "adjacent cs w hg cx cy ds =
     map (\<lambda>d. Some (cs ! nat (cy + snd d) ! nat (cx + fst d))) (filter (inBounds w hg cx cy) ds)"

subsection \<open>The rule of the game\<close>

text \<open>The live-neighbor count in the spec's words: the number of the cell's cached neighbors
  whose state is Alive in the store \<open>h\<close>.\<close>

definition liveNeighborCount :: "heap \<Rightarrow> Cell \<Rightarrow> nat" where
  "liveNeighborCount h c =
     length (filter (\<lambda>n. case n of None \<Rightarrow> False | Some r \<Rightarrow> state (h ! r) = Alive) (neighbors c))"

text \<open>The rule: survive with two or three live neighbors, be born with exactly three,
  otherwise dead.\<close>

definition nextState :: "heap \<Rightarrow> ref \<Rightarrow> CellState" where
  "nextState h c =
     (if (state (h ! c) = Alive \<and>
          (liveNeighborCount h (h ! c) = 2 \<or> liveNeighborCount h (h ! c) = 3)) \<or>
         (state (h ! c) = Dead \<and> liveNeighborCount h (h ! c) = 3)
      then Alive else Dead)"

subsection \<open>Auxiliary notions of the proofs\<close>

text \<open>The references that allocating the cells of \<open>rows\<close> one after the other returns, when
  the store holds \<open>b\<close> objects before.\<close>

fun freshRefs :: "nat \<Rightarrow> 'a list list \<Rightarrow> ref list list" where
  "freshRefs b [] = []"
| "freshRefs b (row # rows) = [b..<b + length row] # freshRefs (b + length row) rows"

text \<open>The object a callback of \<open>createInitialGrid\<close> creates for the coordinate \<open>p\<close>, and the
  coordinates of a grid of width \<open>w\<close> with the row indices \<open>ys\<close>.\<close>

definition deadCell :: "int \<times> int \<Rightarrow> Cell" where
  "deadCell p = \<lparr>state = Dead, cell_x = fst p, cell_y = snd p, neighbors = []\<rparr>"

definition coords :: "int \<Rightarrow> int list \<Rightarrow> (int \<times> int) list list" where
  "coords w ys = map (\<lambda>y. map (\<lambda>x. (x, y)) (map int [0..<nat w])) ys"

text \<open>The copy \<open>{...cell, state}\<close> that \<open>createNextGeneration\<close> makes of the cell \<open>c\<close>.\<close>

definition stepCell :: "heap \<Rightarrow> ref \<Rightarrow> Cell" where
  "stepCell h c = (h ! c)\<lparr>state := nextState h c\<rparr>"

text \<open>A cell whose neighbor list can be counted: the cell and its neighbors are allocated and
  no neighbor is \<open>undefined\<close>.\<close>

definition readable :: "heap \<Rightarrow> ref \<Rightarrow> bool" where
  "readable h c \<longleftrightarrow>
     c < length h \<and> None \<notin> set (neighbors (h ! c)) \<and>
     (\<forall>r. Some r \<in> set (neighbors (h ! c)) \<longrightarrow> r < length h)"

text \<open>The effect of the two loops that assign the neighbor lists of the cells in \<open>R\<close>: nothing
  but these neighbor lists changes.\<close>

definition assigned :: "ref list list \<Rightarrow> int \<Rightarrow> int \<Rightarrow> ref set \<Rightarrow> heap \<Rightarrow> heap \<Rightarrow> bool" where
  "assigned cs w hg R h h' \<longleftrightarrow>
     length h' = length h \<and>
     (\<forall>q. state (h' ! q) = state (h ! q) \<and> cell_x (h' ! q) = cell_x (h ! q) \<and>
          cell_y (h' ! q) = cell_y (h ! q) \<and>
          neighbors (h' ! q) =
            (if q \<in> R \<and> q < length h then adjacent cs w hg (cell_x (h ! q)) (cell_y (h ! q)) directions
             else neighbors (h ! q)))"

subsection \<open>Example grids\<close>

text \<open>A row of three live cells, as \<open>createInitialGrid\<close> builds it on an empty store; the same
  row with dead cells; and the shape of a grid of one cell.\<close>

definition row3_heap :: heap where
  "row3_heap =
     [\<lparr>state = Alive, cell_x = 0, cell_y = 0, neighbors = [Some 1]\<rparr>,
      \<lparr>state = Alive, cell_x = 1, cell_y = 0, neighbors = [Some 0, Some 2]\<rparr>,
      \<lparr>state = Alive, cell_x = 2, cell_y = 0, neighbors = [Some 1]\<rparr>]"

definition row3_grid :: Grid where
  "row3_grid = \<lparr>cells = [[0, 1, 2]], width = 3, height = 1, generation = 0\<rparr>"

definition dead3_heap :: heap where
  "dead3_heap =
     [\<lparr>state = Dead, cell_x = 0, cell_y = 0, neighbors = [Some 1]\<rparr>,
      \<lparr>state = Dead, cell_x = 1, cell_y = 0, neighbors = [Some 0, Some 2]\<rparr>,
      \<lparr>state = Dead, cell_x = 2, cell_y = 0, neighbors = [Some 1]\<rparr>]"

definition one_grid :: Grid where
  "one_grid = \<lparr>cells = [[1]], width = 1, height = 1, generation = 7\<rparr>"



section \<open>Lists of fresh references\<close>

lemma length_freshRefs: "length (freshRefs b rows) = length rows"
  by (induction rows arbitrary: b) auto

lemma length_freshRefs_nth: "i < length rows \<Longrightarrow> length (freshRefs b rows ! i) = length (rows ! i)"
proof (induction rows arbitrary: b i)
  case Nil
  then show ?case by simp
next
  case (Cons row rows)
  then show ?case by (cases i) auto
qed

lemma concat_freshRefs: "concat (freshRefs b rows) = [b..<b + length (concat rows)]"
proof (induction rows arbitrary: b)
  case Nil
  then show ?case by simp
next
  case (Cons row rows)
  have "[b..<b + length row] @ [b + length row..<b + length row + length (concat rows)]
        = [b..<b + length row + length (concat rows)]"
    by (metis le_add1 upt_add_eq_append)
  with Cons show ?case by (simp add: add.assoc)
qed

lemma freshRefs_nth:
  "i < length rows \<Longrightarrow> j < length (rows ! i) \<Longrightarrow>
   (xs @ map f (concat rows)) ! (freshRefs (length xs) rows ! i ! j) = f (rows ! i ! j)"
proof (induction rows arbitrary: xs i)
  case Nil
  then show ?case by simp
next
  case (Cons row rows)
  show ?case
  proof (cases i)
    case 0
    with Cons.prems show ?thesis by (simp add: nth_append)
  next
    case (Suc k)
    with Cons.prems have k: "k < length rows" and j: "j < length (rows ! k)" by auto
    have "((xs @ map f row) @ map f (concat rows)) ! (freshRefs (length (xs @ map f row)) rows ! k ! j)
          = f (rows ! k ! j)"
      by (rule Cons.IH [OF k j])
    with Suc show ?thesis by simp
  qed
qed

lemma freshRefs_empty_rows: "freshRefs b (replicate n []) = replicate n []"
  by (induction n) auto

lemma upt_shift: "[b..<b + Suc n] = b # [Suc b..<Suc b + n]"
proof -
  have "[b..<b + Suc n] = b # [Suc b..<b + Suc n]"
    by (rule upt_conv_Cons) simp
  then show ?thesis by (simp del: upt_Suc)
qed

lemma nth_nth_mem_concat: "y < length cs \<Longrightarrow> x < length (cs ! y) \<Longrightarrow> cs ! y ! x \<in> set (concat cs)"
proof -
  assume y: "y < length cs" and x: "x < length (cs ! y)"
  from y have "cs ! y \<in> set cs" by (rule nth_mem)
  moreover from x have "cs ! y ! x \<in> set (cs ! y)" by (rule nth_mem)
  ultimately show ?thesis by auto
qed

lemma mem_concat_nth:
  assumes "r \<in> set (concat cs)"
  obtains y x where "y < length cs" and "x < length (cs ! y)" and "r = cs ! y ! x"
proof -
  from assms obtain row where row: "row \<in> set cs" and r: "r \<in> set row" by auto
  from row obtain y where y: "y < length cs" "cs ! y = row"
    unfolding in_set_conv_nth by blast
  from r obtain x where x: "x < length row" "row ! x = r"
    unfolding in_set_conv_nth by blast
  from y x have "y < length cs" "x < length (cs ! y)" "r = cs ! y ! x" by simp_all
  then show thesis by (rule that)
qed

lemma length_coords: "length (coords w ys) = length ys"
  by (simp add: coords_def)

lemma length_coords_nth: "y < length ys \<Longrightarrow> length (coords w ys ! y) = nat w"
  by (simp add: coords_def)

lemma coords_nth: "y < length ys \<Longrightarrow> x < nat w \<Longrightarrow> coords w ys ! y ! x = (int x, ys ! y)"
  by (simp add: coords_def)

section \<open>Updates of the store\<close>

lemma nth_update_cell:
  "h[c := v] ! q = (if q = c \<and> c < length h then v else h ! q)"
proof (cases "c < length h")
  case True
  then show ?thesis by (simp add: nth_list_update)
next
  case False
  then have "h[c := v] = h" by (simp add: list_update_beyond not_less)
  with False show ?thesis by simp
qed

lemma update_neighbors_nth:
  "state (h[c := (h ! c)\<lparr>neighbors := ns\<rparr>] ! q) = state (h ! q)"
  "cell_x (h[c := (h ! c)\<lparr>neighbors := ns\<rparr>] ! q) = cell_x (h ! q)"
  "cell_y (h[c := (h ! c)\<lparr>neighbors := ns\<rparr>] ! q) = cell_y (h ! q)"
  "neighbors (h[c := (h ! c)\<lparr>neighbors := ns\<rparr>] ! q) =
     (if q = c \<and> c < length h then ns else neighbors (h ! q))"
  by (simp_all add: nth_update_cell)

lemma update_state_nth:
  "cell_x (h[c := (h ! c)\<lparr>state := s\<rparr>] ! q) = cell_x (h ! q)"
  "cell_y (h[c := (h ! c)\<lparr>state := s\<rparr>] ! q) = cell_y (h ! q)"
  "neighbors (h[c := (h ! c)\<lparr>state := s\<rparr>] ! q) = neighbors (h ! q)"
  by (simp_all add: nth_update_cell)

section \<open>getNeighbors computes the adjacency rule\<close>

lemma neighborsLoop_Cons:
  "neighborsLoop cs cx cy w hg ((dx, dy) # ds) =
     (if inBounds w hg cx cy (dx, dy) then
        (case index_opt cs (cy + dy) of
           None \<Rightarrow> Inl TypeError
         | Some row \<Rightarrow>
             (case neighborsLoop cs cx cy w hg ds of
                Inl e \<Rightarrow> Inl e
              | Inr ns \<Rightarrow> Inr (index_opt row (cx + dx) # ns)))
      else neighborsLoop cs cx cy w hg ds)"
  by (simp add: inBounds_def Let_def)

lemma neighborsLoop_adjacent:
  assumes "hg \<le> int (length cs)" and "\<forall>row\<in>set cs. w \<le> int (length row)"
  shows "neighborsLoop cs cx cy w hg ds = Inr (adjacent cs w hg cx cy ds)"
proof (induction ds)
  case Nil
  then show ?case by (simp add: adjacent_def)
next
  case (Cons d ds)
  obtain dx dy where d: "d = (dx, dy)" by (cases d)
  show ?case
  proof (cases "inBounds w hg cx cy (dx, dy)")
    case False
    with Cons show ?thesis
      unfolding d by (simp only: neighborsLoop_Cons adjacent_def if_False filter.simps)
  next
    case True
    then have b: "0 \<le> cx + dx" "cx + dx < w" "0 \<le> cy + dy" "cy + dy < hg"
      by (simp_all add: inBounds_def)
    from b assms(1) have row: "index_opt cs (cy + dy) = Some (cs ! nat (cy + dy))"
      by (simp add: index_opt_def)
    from b assms(1) have "nat (cy + dy) < length cs" by simp
    then have "cs ! nat (cy + dy) \<in> set cs" by (rule nth_mem)
    with assms(2) have "w \<le> int (length (cs ! nat (cy + dy)))" by blast
    with b have cell:
      "index_opt (cs ! nat (cy + dy)) (cx + dx) = Some (cs ! nat (cy + dy) ! nat (cx + dx))"
      by (simp add: index_opt_def)
    have "neighborsLoop cs cx cy w hg ((dx, dy) # ds) =
            Inr (Some (cs ! nat (cy + dy) ! nat (cx + dx)) # adjacent cs w hg cx cy ds)"
      by (simp only: neighborsLoop_Cons True if_True row cell Cons.IH option.case sum.case)
    also have "Some (cs ! nat (cy + dy) ! nat (cx + dx)) # adjacent cs w hg cx cy ds
                 = adjacent cs w hg cx cy ((dx, dy) # ds)"
      using True by (simp add: adjacent_def)
    finally show ?thesis unfolding d .
  qed
qed

lemma neighborsLoop_not_RangeError: "neighborsLoop cs cx cy w hg ds \<noteq> Inl RangeError"
proof (induction ds)
  case Nil
  then show ?case by simp
next
  case (Cons d ds)
  obtain dx dy where d: "d = (dx, dy)" by (cases d)
  from Cons show ?case
    unfolding d by (simp only: neighborsLoop_Cons split: if_split option.split sum.split) auto
qed

lemma getNeighbors_adjacent:
  assumes "hg \<le> int (length cs)" and "\<forall>row\<in>set cs. w \<le> int (length row)"
  shows "getNeighbors h cs c w hg = Inr (adjacent cs w hg (cell_x (h ! c)) (cell_y (h ! c)) directions)"
  unfolding getNeighbors_def by (rule neighborsLoop_adjacent [OF assms])

lemma getNeighbors_not_RangeError: "getNeighbors h cs c w hg \<noteq> Inl RangeError"
  unfolding getNeighbors_def by (rule neighborsLoop_not_RangeError)

lemma adjacent_subset:
  assumes "int (length cs) = hg" and "\<forall>row\<in>set cs. int (length row) = w"
  shows "set (adjacent cs w hg cx cy ds) \<subseteq> Some ` set (concat cs)"
proof
  fix n assume "n \<in> set (adjacent cs w hg cx cy ds)"
  then obtain d where d: "inBounds w hg cx cy d" and n: "n = Some (cs ! nat (cy + snd d) ! nat (cx + fst d))"
    by (auto simp: adjacent_def)
  from d have b: "0 \<le> cx + fst d" "cx + fst d < w" "0 \<le> cy + snd d" "cy + snd d < hg"
    by (simp_all add: inBounds_def)
  from b assms(1) have y: "nat (cy + snd d) < length cs" by linarith
  then have "cs ! nat (cy + snd d) \<in> set cs" by (rule nth_mem)
  with assms(2) have "int (length (cs ! nat (cy + snd d))) = w" by blast
  with b have x: "nat (cx + fst d) < length (cs ! nat (cy + snd d))" by linarith
  from nth_nth_mem_concat [OF y x] n show "n \<in> Some ` set (concat cs)" by simp
qed

lemma mem_adjacentI:
  "d \<in> set ds \<Longrightarrow> inBounds w hg cx cy d \<Longrightarrow>
   Some (cs ! nat (cy + snd d) ! nat (cx + fst d)) \<in> set (adjacent cs w hg cx cy ds)"
  by (auto simp: adjacent_def)

subsection \<open>The loops that assign the neighbor lists\<close>

lemma assigned_refl: "assigned cs w hg {} h h"
  by (simp add: assigned_def)

lemma assigned_trans:
  assumes a: "assigned cs w hg A h h1" and b: "assigned cs w hg B h1 h2"
  shows "assigned cs w hg (A \<union> B) h h2"
proof -
  from a have la: "length h1 = length h"
    and sa: "\<And>q. state (h1 ! q) = state (h ! q)"
    and xa: "\<And>q. cell_x (h1 ! q) = cell_x (h ! q)"
    and ya: "\<And>q. cell_y (h1 ! q) = cell_y (h ! q)"
    and na: "\<And>q. neighbors (h1 ! q) =
            (if q \<in> A \<and> q < length h then adjacent cs w hg (cell_x (h ! q)) (cell_y (h ! q)) directions
             else neighbors (h ! q))"
    unfolding assigned_def by blast+
  from b have lb: "length h2 = length h1"
    and sb: "\<And>q. state (h2 ! q) = state (h1 ! q)"
    and xb: "\<And>q. cell_x (h2 ! q) = cell_x (h1 ! q)"
    and yb: "\<And>q. cell_y (h2 ! q) = cell_y (h1 ! q)"
    and nb: "\<And>q. neighbors (h2 ! q) =
            (if q \<in> B \<and> q < length h1 then adjacent cs w hg (cell_x (h1 ! q)) (cell_y (h1 ! q)) directions
             else neighbors (h1 ! q))"
    unfolding assigned_def by blast+
  show ?thesis
    unfolding assigned_def
  proof (intro conjI allI)
    show "length h2 = length h" by (simp only: la lb)
  next
    fix q show "state (h2 ! q) = state (h ! q)" by (simp only: sa sb)
  next
    fix q show "cell_x (h2 ! q) = cell_x (h ! q)" by (simp only: xa xb)
  next
    fix q show "cell_y (h2 ! q) = cell_y (h ! q)" by (simp only: ya yb)
  next
    fix q
    show "neighbors (h2 ! q) =
            (if q \<in> A \<union> B \<and> q < length h
             then adjacent cs w hg (cell_x (h ! q)) (cell_y (h ! q)) directions
             else neighbors (h ! q))"
      by (simp add: nb na la xa ya)
  qed
qed

lemma assigned_update:
  "assigned cs w hg {c} h
     (h[c := (h ! c)\<lparr>neighbors := adjacent cs w hg (cell_x (h ! c)) (cell_y (h ! c)) directions\<rparr>])"
  unfolding assigned_def by (simp add: update_neighbors_nth)

lemma assignRow_assigned:
  assumes "hg \<le> int (length cs)" and "\<forall>row\<in>set cs. w \<le> int (length row)"
  shows "\<exists>h'. assignRow h cs w hg rs = Inr h' \<and> assigned cs w hg (set rs) h h'"
proof (induction rs arbitrary: h)
  case Nil
  then show ?case by (simp add: assigned_refl)
next
  case (Cons c rs)
  let ?h1 = "h[c := (h ! c)\<lparr>neighbors := adjacent cs w hg (cell_x (h ! c)) (cell_y (h ! c)) directions\<rparr>]"
  from Cons obtain h' where h': "assignRow ?h1 cs w hg rs = Inr h'" "assigned cs w hg (set rs) ?h1 h'"
    by blast
  have "assigned cs w hg ({c} \<union> set rs) h h'"
    by (rule assigned_trans [OF assigned_update h'(2)])
  moreover have "assignRow h cs w hg (c # rs) = Inr h'"
    by (simp add: getNeighbors_adjacent [OF assms] h'(1))
  ultimately show ?case by simp
qed

lemma assignNeighbors_assigned:
  assumes "hg \<le> int (length cs)" and "\<forall>row\<in>set cs. w \<le> int (length row)"
  shows "\<exists>h'. assignNeighbors h cs w hg rows = Inr h' \<and> assigned cs w hg (set (concat rows)) h h'"
proof (induction rows arbitrary: h)
  case Nil
  then show ?case by (simp add: assigned_refl)
next
  case (Cons row rows)
  from assignRow_assigned [OF assms] obtain h1 where
    h1: "assignRow h cs w hg row = Inr h1" "assigned cs w hg (set row) h h1"
    by blast
  from Cons obtain h' where
    h': "assignNeighbors h1 cs w hg rows = Inr h'" "assigned cs w hg (set (concat rows)) h1 h'"
    by blast
  have "assigned cs w hg (set row \<union> set (concat rows)) h h'"
    by (rule assigned_trans [OF h1(2) h'(2)])
  with h1(1) h'(1) show ?case by simp
qed

lemma assignRow_not_RangeError: "assignRow h cs w hg rs \<noteq> Inl RangeError"
proof (induction rs arbitrary: h)
  case Nil
  then show ?case by simp
next
  case (Cons c rs)
  show ?case
  proof (cases "getNeighbors h cs c w hg")
    case (Inl e)
    with getNeighbors_not_RangeError [of h cs c w hg] show ?thesis by simp
  next
    case (Inr ns)
    with Cons show ?thesis by simp
  qed
qed

lemma assignNeighbors_not_RangeError: "assignNeighbors h cs w hg rows \<noteq> Inl RangeError"
proof (induction rows arbitrary: h)
  case Nil
  then show ?case by simp
next
  case (Cons row rows)
  show ?case
  proof (cases "assignRow h cs w hg row")
    case (Inl e)
    with assignRow_not_RangeError [of h cs w hg row] show ?thesis by simp
  next
    case (Inr h1)
    with Cons show ?thesis by simp
  qed
qed

lemma assignNeighbors_empty_rows: "assignNeighbors h cs w hg (replicate n []) = Inr h"
  by (induction n) auto

lemma shape_imp_bounds:
  assumes "int (length cs) = hg" and "\<forall>row\<in>set cs. int (length row) = w"
  shows "hg \<le> int (length cs)" and "\<forall>row\<in>set cs. w \<le> int (length row)"
  using assms by simp_all

section \<open>createInitialGrid\<close>

subsection \<open>Allocation of the cells\<close>

lemma newRow_eq:
  "newRow h y xs = (h @ map (\<lambda>x. deadCell (x, y)) xs, [length h..<length h + length xs])"
proof (induction xs arbitrary: h)
  case Nil
  then show ?case by simp
next
  case (Cons x xs)
  have "[length h..<length h + length (x # xs)] = length h # [Suc (length h)..<Suc (length h) + length xs]"
    using upt_shift [of "length h" "length xs"] by (simp del: upt_Suc)
  with Cons show ?case by (simp add: alloc_def deadCell_def del: upt_Suc)
qed

lemma newRows_eq:
  "0 \<le> w \<Longrightarrow> w \<le> maxArrayLength \<Longrightarrow>
   newRows h w ys = Inr (h @ map deadCell (concat (coords w ys)), freshRefs (length h) (coords w ys))"
proof (induction ys arbitrary: h)
  case Nil
  then show ?case by (simp add: coords_def)
next
  case (Cons y ys)
  then show ?case by (simp add: newRow_eq coords_def comp_def)
qed

lemma newRows_neg:
  "w < 0 \<or> maxArrayLength < w \<Longrightarrow> ys \<noteq> [] \<Longrightarrow> newRows h w ys = Inl RangeError"
  by (cases ys) auto

lemma constructed_shape:
  assumes "0 \<le> hg" and "0 \<le> w \<or> hg = 0"
  shows "int (length (freshRefs b (coords w (map int [0..<nat hg])))) = hg"
    and "\<forall>row\<in>set (freshRefs b (coords w (map int [0..<nat hg]))). int (length row) = w"
proof -
  let ?rows = "coords w (map int [0..<nat hg])"
  let ?cs = "freshRefs b ?rows"
  from assms(1) show "int (length ?cs) = hg" by (simp add: length_freshRefs length_coords)
  show "\<forall>row\<in>set ?cs. int (length row) = w"
  proof
    fix row assume "row \<in> set ?cs"
    then obtain y where y: "y < length ?cs" and row: "row = ?cs ! y"
      unfolding in_set_conv_nth by blast
    from y have y': "y < length ?rows" by (simp add: length_freshRefs)
    then have "y < nat hg" by (simp add: length_coords)
    with assms(2) have w: "0 \<le> w" by linarith
    from y' have "length (?rows ! y) = nat w" by (simp add: length_coords length_coords_nth)
    with row y' w show "int (length row) = w" by (simp add: length_freshRefs_nth)
  qed
qed

subsection \<open>The loop over the alive cells\<close>

lemma setAlive_not_RangeError: "setAlive h cs w hg as \<noteq> Inl RangeError"
proof (induction as arbitrary: h)
  case Nil
  then show ?case by simp
next
  case (Cons a as)
  then show ?case by (simp split: option.split)
qed

lemma setAlive_filter:
  "setAlive h cs w hg as = setAlive h cs w hg (filter (\<lambda>a. cell_x a < w \<and> cell_y a < hg) as)"
proof (induction as arbitrary: h)
  case Nil
  then show ?case by simp
next
  case (Cons a as)
  then show ?case by (simp split: option.split)
qed

lemma setAlive_skip:
  "\<forall>a\<in>set as. \<not> (cell_x a < w \<and> cell_y a < hg) \<Longrightarrow> setAlive h cs w hg as = Inr h"
  by (induction as) auto

lemma setAlive_frame:
  "setAlive h cs w hg as = Inr h' \<Longrightarrow>
   length h' = length h \<and>
   (\<forall>q. cell_x (h' ! q) = cell_x (h ! q) \<and> cell_y (h' ! q) = cell_y (h ! q) \<and>
        neighbors (h' ! q) = neighbors (h ! q))"
proof (induction as arbitrary: h)
  case Nil
  then show ?case by simp
next
  case (Cons a as)
  show ?case
  proof (cases "cell_x a < w \<and> cell_y a < hg")
    case False
    with Cons show ?thesis by simp
  next
    case True
    with Cons.prems obtain row r where
      "index_opt cs (cell_y a) = Some row" "index_opt row (cell_x a) = Some r"
      and rest: "setAlive (h[r := (h ! r)\<lparr>state := Alive\<rparr>]) cs w hg as = Inr h'"
      by (auto split: option.splits)
    from Cons.IH [OF rest] show ?thesis
      by (simp add: update_state_nth)
  qed
qed

lemma setAlive_total:
  assumes "int (length cs) = hg" and "\<forall>row\<in>set cs. int (length row) = w"
    and "\<forall>a\<in>set as. cell_x a < w \<and> cell_y a < hg \<longrightarrow> 0 \<le> cell_x a \<and> 0 \<le> cell_y a"
  shows "\<exists>h'. setAlive h cs w hg as = Inr h'"
  using assms(3)
proof (induction as arbitrary: h)
  case Nil
  then show ?case by simp
next
  case (Cons a as)
  show ?case
  proof (cases "cell_x a < w \<and> cell_y a < hg")
    case False
    from Cons.prems have "\<forall>a\<in>set as. cell_x a < w \<and> cell_y a < hg \<longrightarrow> 0 \<le> cell_x a \<and> 0 \<le> cell_y a"
      by simp
    from Cons.IH [OF this] False show ?thesis by auto
  next
    case True
    with Cons.prems have nn: "0 \<le> cell_x a" "0 \<le> cell_y a" by simp_all
    from True nn assms(1) have row: "index_opt cs (cell_y a) = Some (cs ! nat (cell_y a))"
      by (simp add: index_opt_def)
    from True nn assms(1) have "nat (cell_y a) < length cs" by linarith
    then have "cs ! nat (cell_y a) \<in> set cs" by (rule nth_mem)
    with assms(2) have "int (length (cs ! nat (cell_y a))) = w" by blast
    with True nn have cell:
      "index_opt (cs ! nat (cell_y a)) (cell_x a) = Some (cs ! nat (cell_y a) ! nat (cell_x a))"
      by (simp add: index_opt_def)
    from Cons.prems have "\<forall>a\<in>set as. cell_x a < w \<and> cell_y a < hg \<longrightarrow> 0 \<le> cell_x a \<and> 0 \<le> cell_y a"
      by simp
    from Cons.IH [OF this] True row cell show ?thesis by simp
  qed
qed

subsection \<open>A grid of fresh cells whose neighbor lists have been assigned\<close>

lemma grid_shape_lengths:
  assumes "grid_shape g"
  shows "length (cells g) = nat (height g)"
    and "y < length (cells g) \<Longrightarrow> length (cells g ! y) = nat (width g)"
proof -
  from assms have l: "int (length (cells g)) = height g"
    and r: "\<forall>row\<in>set (cells g). int (length row) = width g"
    by (simp_all add: grid_shape_def)
  from l show "length (cells g) = nat (height g)" by linarith
  assume "y < length (cells g)"
  then have "cells g ! y \<in> set (cells g)" by (rule nth_mem)
  with r have "int (length (cells g ! y)) = width g" by blast
  then show "length (cells g ! y) = nat (width g)" by linarith
qed

lemma fresh_grid:
  assumes cs: "cs = freshRefs (length h0) rows"
    and len: "length h1 = length h0 + length (concat rows)"
    and shape: "int (length rows) = hg" "\<forall>row\<in>set rows. int (length row) = w"
    and coord: "\<forall>y<length rows. \<forall>x<length (rows ! y).
        cell_x (h1 ! (cs ! y ! x)) = int x \<and> cell_y (h1 ! (cs ! y ! x)) = int y"
    and asg: "assigned cs w hg (set (concat cs)) h1 h2"
  shows "grid_inv h2 \<lparr>cells = cs, width = w, height = hg, generation = n\<rparr>"
    and "\<forall>y<length rows. \<forall>x<length (rows ! y).
        neighbors (h2 ! (cs ! y ! x)) = adjacent cs w hg (int x) (int y) directions"
    and "concat cs = [length h0..<length h2]"
proof -
  have lcs: "length cs = length rows" by (simp add: cs length_freshRefs)
  have lrow: "\<And>y. y < length rows \<Longrightarrow> length (cs ! y) = length (rows ! y)"
    by (simp add: cs length_freshRefs_nth)
  have rows_cs: "\<forall>row\<in>set cs. int (length row) = w"
  proof
    fix row assume "row \<in> set cs"
    then obtain y where "y < length cs" "row = cs ! y" by (auto simp: in_set_conv_nth)
    with lcs lrow shape(2) show "int (length row) = w" by simp
  qed
  from asg have l2: "length h2 = length h1"
    and fx: "\<And>q. cell_x (h2 ! q) = cell_x (h1 ! q)"
    and fy: "\<And>q. cell_y (h2 ! q) = cell_y (h1 ! q)"
    and fn: "\<And>q. neighbors (h2 ! q) =
        (if q \<in> set (concat cs) \<and> q < length h1
         then adjacent cs w hg (cell_x (h1 ! q)) (cell_y (h1 ! q)) directions
         else neighbors (h1 ! q))"
    unfolding assigned_def by blast+
  show cc: "concat cs = [length h0..<length h2]"
    by (simp add: cs concat_freshRefs l2 len)
  have valid: "\<forall>r\<in>set (concat cs). r < length h2"
    by (simp add: cc)
  have nb: "\<forall>r\<in>set (concat cs).
      neighbors (h2 ! r) = adjacent cs w hg (cell_x (h1 ! r)) (cell_y (h1 ! r)) directions"
    using valid by (simp add: fn l2)
  show nbs: "\<forall>y<length rows. \<forall>x<length (rows ! y).
      neighbors (h2 ! (cs ! y ! x)) = adjacent cs w hg (int x) (int y) directions"
  proof (intro allI impI)
    fix y x assume y: "y < length rows" and x: "x < length (rows ! y)"
    from y lcs have "y < length cs" by simp
    moreover from x lrow [OF y] have "x < length (cs ! y)" by simp
    ultimately have "cs ! y ! x \<in> set (concat cs)"
      by (rule nth_nth_mem_concat)
    with nb have "neighbors (h2 ! (cs ! y ! x)) =
        adjacent cs w hg (cell_x (h1 ! (cs ! y ! x))) (cell_y (h1 ! (cs ! y ! x))) directions"
      by blast
    moreover from coord y x have "cell_x (h1 ! (cs ! y ! x)) = int x" "cell_y (h1 ! (cs ! y ! x)) = int y"
      by blast+
    ultimately show "neighbors (h2 ! (cs ! y ! x)) = adjacent cs w hg (int x) (int y) directions"
      by simp
  qed
  have sub: "\<forall>r\<in>set (concat cs). set (neighbors (h2 ! r)) \<subseteq> Some ` set (concat cs)"
  proof
    fix r assume "r \<in> set (concat cs)"
    with nb have "neighbors (h2 ! r) = adjacent cs w hg (cell_x (h1 ! r)) (cell_y (h1 ! r)) directions"
      by blast
    moreover have "set (adjacent cs w hg (cell_x (h1 ! r)) (cell_y (h1 ! r)) directions)
        \<subseteq> Some ` set (concat cs)"
      by (rule adjacent_subset) (simp_all add: lcs shape(1) rows_cs)
    ultimately show "set (neighbors (h2 ! r)) \<subseteq> Some ` set (concat cs)" by simp
  qed
  have co: "\<forall>y<length cs. \<forall>x<length (cs ! y).
      cell_x (h2 ! (cs ! y ! x)) = int x \<and> cell_y (h2 ! (cs ! y ! x)) = int y"
    using coord lcs lrow by (simp add: fx fy)
  show "grid_inv h2 \<lparr>cells = cs, width = w, height = hg, generation = n\<rparr>"
    unfolding grid_inv_def grid_shape_def
    using lcs shape(1) rows_cs valid co sub by simp
qed

subsection \<open>What createInitialGrid returns\<close>

lemma createInitialGrid_Inr:
  assumes "createInitialGrid h w hg as = Inr (h', g)"
  obtains h2 where
    "0 \<le> hg" and "0 \<le> w \<or> hg = 0"
    and "g = \<lparr>cells = freshRefs (length h) (coords w (map int [0..<nat hg])),
              width = w, height = hg, generation = 0\<rparr>"
    and "setAlive (h @ map deadCell (concat (coords w (map int [0..<nat hg])))) (cells g) w hg as = Inr h2"
    and "assignNeighbors h2 (cells g) w hg (cells g) = Inr h'"
proof -
  let ?ys = "map int [0..<nat hg]"
  from assms have len: "\<not> (hg < 0 \<or> maxArrayLength < hg)"
    by (simp add: createInitialGrid_def split: if_splits)
  then have hg: "0 \<le> hg" by simp
  have wok: "(0 \<le> w \<and> w \<le> maxArrayLength) \<or> hg = 0"
  proof (rule ccontr)
    assume "\<not> ((0 \<le> w \<and> w \<le> maxArrayLength) \<or> hg = 0)"
    with hg have "w < 0 \<or> maxArrayLength < w" "?ys \<noteq> []" by auto
    then have "newRows h w ?ys = Inl RangeError" by (rule newRows_neg)
    with assms len show False by (simp add: createInitialGrid_def)
  qed
  then have w: "0 \<le> w \<or> hg = 0" by blast
  have rows: "newRows h w ?ys =
      Inr (h @ map deadCell (concat (coords w ?ys)), freshRefs (length h) (coords w ?ys))"
  proof (cases "hg = 0")
    case True
    then show ?thesis by (simp add: coords_def)
  next
    case False
    with wok have "0 \<le> w" "w \<le> maxArrayLength" by simp_all
    then show ?thesis by (rule newRows_eq)
  qed
  from assms len rows obtain h2 where
    "setAlive (h @ map deadCell (concat (coords w ?ys))) (freshRefs (length h) (coords w ?ys)) w hg as = Inr h2"
    "assignNeighbors h2 (freshRefs (length h) (coords w ?ys)) w hg (freshRefs (length h) (coords w ?ys)) = Inr h'"
    "g = \<lparr>cells = freshRefs (length h) (coords w ?ys), width = w, height = hg, generation = 0\<rparr>"
    by (auto simp: createInitialGrid_def split: sum.splits)
  with hg w that show ?thesis by simp
qed

lemma createInitialGrid_built:
  assumes "createInitialGrid h w hg as = Inr (h', g)"
  shows "grid_inv h' g"
    and "width g = w \<and> height g = hg \<and> generation g = 0"
    and "\<forall>y<nat hg. \<forall>x<nat w.
        neighbors (h' ! (cells g ! y ! x)) = adjacent (cells g) w hg (int x) (int y) directions"
    and "concat (cells g) = [length h..<length h']"
proof -
  let ?ys = "map int [0..<nat hg]"
  let ?rows = "coords w ?ys"
  let ?cs = "freshRefs (length h) ?rows"
  let ?h1 = "h @ map deadCell (concat ?rows)"
  from createInitialGrid_Inr [OF assms] obtain h2 where
    hg: "0 \<le> hg" and w: "0 \<le> w \<or> hg = 0"
    and g: "g = \<lparr>cells = ?cs, width = w, height = hg, generation = 0\<rparr>"
    and sa: "setAlive ?h1 (cells g) w hg as = Inr h2"
    and an: "assignNeighbors h2 (cells g) w hg (cells g) = Inr h'"
    by blast
  from g have cg: "cells g = ?cs" by simp
  from g show "width g = w \<and> height g = hg \<and> generation g = 0" by simp
  have s1: "int (length ?rows) = hg" using hg by (simp add: length_coords)
  have s2: "\<forall>row\<in>set ?rows. int (length row) = w"
  proof (cases "0 \<le> w")
    case True
    then show ?thesis by (auto simp: coords_def)
  next
    case False
    with w show ?thesis by (simp add: coords_def)
  qed
  have lrows: "\<And>y. y < length ?rows \<Longrightarrow> length (?rows ! y) = nat w"
    by (simp add: length_coords length_coords_nth)
  have c1: "int (length ?cs) = hg" using s1 by (simp add: length_freshRefs)
  have c2: "\<forall>row\<in>set ?cs. int (length row) = w"
  proof
    fix row assume "row \<in> set ?cs"
    then obtain y where y: "y < length ?cs" and row: "row = ?cs ! y" by (auto simp: in_set_conv_nth)
    from y have y': "y < length ?rows" by (simp add: length_freshRefs)
    then have "?rows ! y \<in> set ?rows" by (rule nth_mem)
    with s2 have "int (length (?rows ! y)) = w" by blast
    with row y' show "int (length row) = w" by (simp add: length_freshRefs_nth)
  qed
  from setAlive_frame [OF sa] have l2: "length h2 = length ?h1"
    and fx: "\<And>q. cell_x (h2 ! q) = cell_x (?h1 ! q)"
    and fy: "\<And>q. cell_y (h2 ! q) = cell_y (?h1 ! q)"
    by blast+
  from assignNeighbors_assigned [OF shape_imp_bounds [OF c1 c2], of h2 ?cs] an cg
  have asg: "assigned ?cs w hg (set (concat ?cs)) h2 h'" by auto
  have len: "length h2 = length h + length (concat ?rows)" using l2 by simp
  have coord: "\<forall>y<length ?rows. \<forall>x<length (?rows ! y).
      cell_x (h2 ! (?cs ! y ! x)) = int x \<and> cell_y (h2 ! (?cs ! y ! x)) = int y"
  proof (intro allI impI)
    fix y x assume y: "y < length ?rows" and x: "x < length (?rows ! y)"
    from y have yh: "y < nat hg" by (simp add: length_coords)
    from x lrows [OF y] have xw: "x < nat w" by simp
    have "?h1 ! (?cs ! y ! x) = deadCell (?rows ! y ! x)"
      by (rule freshRefs_nth [OF y x])
    also have "?rows ! y ! x = (int x, int y)"
      using yh xw by (simp add: coords_nth)
    finally have dc: "?h1 ! (?cs ! y ! x) = deadCell (int x, int y)" .
    show "cell_x (h2 ! (?cs ! y ! x)) = int x \<and> cell_y (h2 ! (?cs ! y ! x)) = int y"
      unfolding fx fy dc by (simp add: deadCell_def)
  qed
  note fg = fresh_grid [OF refl len s1 s2 coord asg]
  from fg(1) [of 0] g show "grid_inv h' g" by simp
  from fg(3) cg show "concat (cells g) = [length h..<length h']" by simp
  show "\<forall>y<nat hg. \<forall>x<nat w.
      neighbors (h' ! (cells g ! y ! x)) = adjacent (cells g) w hg (int x) (int y) directions"
  proof (intro allI impI)
    fix y x assume yh: "y < nat hg" and xw: "x < nat w"
    from yh have y: "y < length ?rows" by (simp add: length_coords)
    with xw lrows have x: "x < length (?rows ! y)" by simp
    from fg(2) y x cg show
      "neighbors (h' ! (cells g ! y ! x)) = adjacent (cells g) w hg (int x) (int y) directions"
      by simp
  qed
qed

lemma createInitialGrid_total:
  assumes "0 \<le> hg" and "hg \<le> maxArrayLength"
    and "(0 \<le> w \<and> w \<le> maxArrayLength) \<or> hg = 0"
    and "\<forall>a\<in>set as. cell_x a < w \<and> cell_y a < hg \<longrightarrow> 0 \<le> cell_x a \<and> 0 \<le> cell_y a"
  shows "\<exists>h' g. createInitialGrid h w hg as = Inr (h', g)"
proof -
  let ?ys = "map int [0..<nat hg]"
  let ?rows = "coords w ?ys"
  let ?cs = "freshRefs (length h) ?rows"
  let ?h1 = "h @ map deadCell (concat ?rows)"
  from assms(3) have w: "0 \<le> w \<or> hg = 0" by blast
  note sh = constructed_shape [OF assms(1) w, of "length h"]
  have rows: "newRows h w ?ys = Inr (?h1, ?cs)"
  proof (cases "hg = 0")
    case True
    then show ?thesis by (simp add: coords_def)
  next
    case False
    with assms(3) have "0 \<le> w" "w \<le> maxArrayLength" by simp_all
    then show ?thesis by (rule newRows_eq)
  qed
  from setAlive_total [OF sh assms(4)] obtain h2 where sa: "setAlive ?h1 ?cs w hg as = Inr h2"
    by blast
  from assignNeighbors_assigned [OF shape_imp_bounds [OF sh]] obtain h3 where
    an: "assignNeighbors h2 ?cs w hg ?cs = Inr h3"
    by blast
  from assms(1,2) rows sa an show ?thesis by (simp add: createInitialGrid_def)
qed

lemma createInitialGrid_empty_dead:
  assumes "createInitialGrid h w hg [] = Inr (h', g)"
  shows "\<forall>r\<in>set (concat (cells g)). state (h' ! r) = Dead"
proof
  let ?rows = "coords w (map int [0..<nat hg])"
  let ?h1 = "h @ map deadCell (concat ?rows)"
  fix r assume r: "r \<in> set (concat (cells g))"
  from createInitialGrid_Inr [OF assms] obtain h2 where
    hg: "0 \<le> hg" and w: "0 \<le> w \<or> hg = 0"
    and g: "g = \<lparr>cells = freshRefs (length h) ?rows, width = w, height = hg, generation = 0\<rparr>"
    and sa: "setAlive ?h1 (cells g) w hg [] = Inr h2"
    and an: "assignNeighbors h2 (cells g) w hg (cells g) = Inr h'"
    by blast
  from sa have h2: "h2 = ?h1" by simp
  from g have cg: "cells g = freshRefs (length h) ?rows" by simp
  note sh = constructed_shape [OF hg w, of "length h"]
  from assignNeighbors_assigned [OF shape_imp_bounds [OF sh], of h2 "cells g"] an cg
  have "assigned (cells g) w hg (set (concat (cells g))) h2 h'" by auto
  then have "state (h' ! r) = state (h2 ! r)" unfolding assigned_def by blast
  moreover from r cg have "length h \<le> r" "r < length h + length (concat ?rows)"
    by (simp_all add: concat_freshRefs)
  then have "?h1 ! r = deadCell (concat ?rows ! (r - length h))"
    by (simp add: nth_append)
  ultimately show "state (h' ! r) = Dead" by (simp add: h2 deadCell_def)
qed

lemma createInitialGrid_RangeError:
  "createInitialGrid h w hg as = Inl RangeError \<longleftrightarrow>
     hg < 0 \<or> maxArrayLength < hg \<or> (0 < hg \<and> (w < 0 \<or> maxArrayLength < w))"
proof (cases "hg < 0 \<or> maxArrayLength < hg")
  case True
  then show ?thesis by (auto simp: createInitialGrid_def)
next
  case hg: False
  show ?thesis
  proof (cases "0 < hg \<and> (w < 0 \<or> maxArrayLength < w)")
    case True
    then have "newRows h w (map int [0..<nat hg]) = Inl RangeError"
      by (intro newRows_neg) simp_all
    with True hg show ?thesis by (simp add: createInitialGrid_def)
  next
    case False
    have "createInitialGrid h w hg as \<noteq> Inl RangeError"
    proof
      assume e: "createInitialGrid h w hg as = Inl RangeError"
      let ?ys = "map int [0..<nat hg]"
      have rows: "newRows h w ?ys =
          Inr (h @ map deadCell (concat (coords w ?ys)), freshRefs (length h) (coords w ?ys))"
      proof (cases "hg = 0")
        case True
        then show ?thesis by (simp add: coords_def)
      next
        case nz: False
        with hg False have "0 \<le> w" "w \<le> maxArrayLength" by auto
        then show ?thesis by (rule newRows_eq)
      qed
      show False
      proof (cases "setAlive (h @ map deadCell (concat (coords w ?ys))) (freshRefs (length h) (coords w ?ys)) w hg as")
        case (Inl err)
        with e hg rows have "err = RangeError" by (simp add: createInitialGrid_def)
        with Inl setAlive_not_RangeError show False by blast
      next
        case (Inr h2)
        show False
        proof (cases "assignNeighbors h2 (freshRefs (length h) (coords w ?ys)) w hg (freshRefs (length h) (coords w ?ys))")
          case (Inl err)
          with e hg rows Inr have "err = RangeError" by (simp add: createInitialGrid_def)
          with Inl assignNeighbors_not_RangeError show False by blast
        next
          case h3: (Inr h3)
          with e hg rows Inr show False by (simp add: createInitialGrid_def)
        qed
      qed
    qed
    with hg False show ?thesis by blast
  qed
qed

lemma createInitialGrid_degenerate:
  assumes "hg = 0 \<or> (0 < hg \<and> hg \<le> maxArrayLength \<and> w = 0)"
    and "\<forall>a\<in>set as. 0 \<le> cell_x a \<and> 0 \<le> cell_y a"
  shows "createInitialGrid h w hg as =
     Inr (h, \<lparr>cells = replicate (nat hg) [], width = w, height = hg, generation = 0\<rparr>)"
proof -
  let ?ys = "map int [0..<nat hg]"
  from assms(1) have hg: "\<not> (hg < 0 \<or> maxArrayLength < hg)"
    by (auto simp: maxArrayLength_def)
  have rows: "newRows h w ?ys = Inr (h, replicate (nat hg) [])"
  proof (cases "hg = 0")
    case True
    then show ?thesis by simp
  next
    case False
    with assms(1) have w: "w = 0" by simp
    have co: "coords 0 ?ys = replicate (nat hg) []"
      by (simp add: coords_def map_replicate_const)
    have "(0::int) \<le> 0" "(0::int) \<le> maxArrayLength" by (simp_all add: maxArrayLength_def)
    from newRows_eq [OF this, of h ?ys] show ?thesis
      unfolding w co by (simp add: freshRefs_empty_rows)
  qed
  from assms have "\<forall>a\<in>set as. \<not> (cell_x a < w \<and> cell_y a < hg)" by auto
  then have sa: "setAlive h (replicate (nat hg) []) w hg as = Inr h" by (rule setAlive_skip)
  from hg rows sa show ?thesis
    by (simp add: createInitialGrid_def assignNeighbors_empty_rows)
qed

text \<open>The guard of the loop over the alive cells drops every coordinate with \<open>x \<ge> width\<close> or
  \<open>y \<ge> height\<close>: the result is that of the call with the remaining coordinates only.\<close>

lemma createInitialGrid_drops_beyond_upper_bounds:
  "createInitialGrid h w hg aliveCells =
     createInitialGrid h w hg (filter (\<lambda>a. cell_x a < w \<and> cell_y a < hg) aliveCells)"
  unfolding createInitialGrid_def
  using setAlive_filter [of _ _ w hg aliveCells]
  by (simp split: sum.split)

section \<open>createNextGeneration\<close>

lemma countLive_eq:
  "None \<notin> set ns \<Longrightarrow>
   countLive h ns =
     Inr (length (filter (\<lambda>n. case n of None \<Rightarrow> False | Some r \<Rightarrow> state (h ! r) = Alive) ns))"
proof (induction ns)
  case Nil
  then show ?case by simp
next
  case (Cons n ns)
  then show ?case by (cases n) simp_all
qed

lemma countLiveNeighbors_eq:
  "None \<notin> set (neighbors (h ! c)) \<Longrightarrow> countLiveNeighbors h c = Inr (liveNeighborCount h (h ! c))"
  by (simp add: countLiveNeighbors_def liveNeighborCount_def countLive_eq)

lemma getNextCellState_eq:
  assumes "None \<notin> set (neighbors (h ! c))"
  shows "getNextCellState h c = Inr (nextState h c)"
proof (cases "state (h ! c)")
  case Alive
  then show ?thesis
    by (simp add: getNextCellState_def shouldSurvive_def shouldBeBorn_def nextState_def
        countLiveNeighbors_eq [OF assms] Let_def)
next
  case Dead
  then show ?thesis
    by (simp add: getNextCellState_def shouldSurvive_def shouldBeBorn_def nextState_def
        countLiveNeighbors_eq [OF assms] Let_def)
qed

lemma liveNeighborCount_append:
  assumes "\<forall>r. Some r \<in> set (neighbors c) \<longrightarrow> r < length h"
  shows "liveNeighborCount (h @ ext) c = liveNeighborCount h c"
proof -
  have "filter (\<lambda>n. case n of None \<Rightarrow> False | Some r \<Rightarrow> state ((h @ ext) ! r) = Alive) (neighbors c)
      = filter (\<lambda>n. case n of None \<Rightarrow> False | Some r \<Rightarrow> state (h ! r) = Alive) (neighbors c)"
  proof (rule filter_cong [OF refl])
    fix n assume "n \<in> set (neighbors c)"
    with assms show "(case n of None \<Rightarrow> False | Some r \<Rightarrow> state ((h @ ext) ! r) = Alive)
        = (case n of None \<Rightarrow> False | Some r \<Rightarrow> state (h ! r) = Alive)"
      by (cases n) (simp_all add: nth_append)
  qed
  then show ?thesis by (simp add: liveNeighborCount_def)
qed

lemma readable_append:
  assumes "readable h c"
  shows "(h @ ext) ! c = h ! c" and "nextState (h @ ext) c = nextState h c"
    and "None \<notin> set (neighbors ((h @ ext) ! c))"
proof -
  from assms show c: "(h @ ext) ! c = h ! c"
    by (simp add: readable_def nth_append)
  from assms have "\<forall>r. Some r \<in> set (neighbors (h ! c)) \<longrightarrow> r < length h"
    by (simp add: readable_def)
  then have "liveNeighborCount (h @ ext) (h ! c) = liveNeighborCount h (h ! c)"
    by (rule liveNeighborCount_append)
  with c show "nextState (h @ ext) c = nextState h c"
    by (simp add: nextState_def)
  from assms c show "None \<notin> set (neighbors ((h @ ext) ! c))"
    by (simp add: readable_def)
qed

lemma nextRow_eq:
  assumes "\<forall>c\<in>set row. readable h c"
  shows "nextRow (h @ ext) row =
      Inr (h @ ext @ map (stepCell h) row, [length (h @ ext)..<length (h @ ext) + length row])"
  using assms
proof (induction row arbitrary: ext)
  case Nil
  then show ?case by simp
next
  case (Cons c row)
  from Cons.prems have c: "readable h c" and row: "\<forall>c\<in>set row. readable h c" by simp_all
  have st: "getNextCellState (h @ ext) c = Inr (nextState h c)"
    using getNextCellState_eq [OF readable_append(3) [OF c]] readable_append(2) [OF c] by simp
  have cell: "((h @ ext) ! c)\<lparr>state := nextState h c\<rparr> = stepCell h c"
    using readable_append(1) [OF c] by (simp add: stepCell_def)
  have ih: "nextRow (h @ (ext @ [stepCell h c])) row =
      Inr (h @ (ext @ [stepCell h c]) @ map (stepCell h) row,
           [length (h @ (ext @ [stepCell h c]))..<length (h @ (ext @ [stepCell h c])) + length row])"
    by (rule Cons.IH [OF row])
  have upt: "[length (h @ ext)..<length (h @ ext) + length (c # row)] =
      length (h @ ext) # [length (h @ (ext @ [stepCell h c]))..<length (h @ (ext @ [stepCell h c])) + length row]"
    using upt_shift [of "length (h @ ext)" "length row"] by (simp del: upt_Suc)
  show ?case
    using st cell ih upt by (simp add: alloc_def del: upt_Suc)
qed

lemma nextRows_eq:
  assumes "\<forall>c\<in>set (concat rows). readable h c"
  shows "nextRows (h @ ext) rows =
      Inr (h @ ext @ map (stepCell h) (concat rows), freshRefs (length (h @ ext)) rows)"
  using assms
proof (induction rows arbitrary: ext)
  case Nil
  then show ?case by simp
next
  case (Cons row rows)
  from Cons.prems have row: "\<forall>c\<in>set row. readable h c"
    and rows: "\<forall>c\<in>set (concat rows). readable h c" by simp_all
  have ih: "nextRows (h @ (ext @ map (stepCell h) row)) rows =
      Inr (h @ (ext @ map (stepCell h) row) @ map (stepCell h) (concat rows),
           freshRefs (length (h @ (ext @ map (stepCell h) row))) rows)"
    by (rule Cons.IH [OF rows])
  show ?case
    using nextRow_eq [OF row, of ext] ih by (simp add: add.assoc)
qed

lemma grid_inv_readable:
  assumes "grid_inv h g" and "c \<in> set (concat (cells g))"
  shows "readable h c"
proof -
  from assms have c: "c < length h"
    and sub: "set (neighbors (h ! c)) \<subseteq> Some ` set (concat (cells g))"
    and valid: "\<forall>r\<in>set (concat (cells g)). r < length h"
    unfolding grid_inv_def by blast+
  from sub have "None \<notin> set (neighbors (h ! c))" by blast
  moreover from sub valid have "\<forall>r. Some r \<in> set (neighbors (h ! c)) \<longrightarrow> r < length h" by blast
  ultimately show ?thesis using c by (simp add: readable_def)
qed

lemma createNextGeneration_stepped:
  assumes inv: "grid_inv h g"
  obtains h' cs' where
    "createNextGeneration h g = Inr (h', g\<lparr>cells := cs', generation := addOne (generation g)\<rparr>)"
    and "grid_inv h' (g\<lparr>cells := cs', generation := addOne (generation g)\<rparr>)"
    and "\<forall>y<length (cells g). \<forall>x<length (cells g ! y).
        state (h' ! (cs' ! y ! x)) = nextState h (cells g ! y ! x)"
    and "concat cs' = [length h..<length h']"
    and "\<forall>q<length h. state (h' ! q) = state (h ! q)"
proof -
  let ?cs = "cells g"
  let ?cs' = "freshRefs (length h) ?cs"
  let ?h1 = "h @ map (stepCell h) (concat ?cs)"
  from inv have s1: "int (length ?cs) = height g" and s2: "\<forall>row\<in>set ?cs. int (length row) = width g"
    and co: "\<forall>y<length ?cs. \<forall>x<length (?cs ! y).
        cell_x (h ! (?cs ! y ! x)) = int x \<and> cell_y (h ! (?cs ! y ! x)) = int y"
    and valid: "\<forall>r\<in>set (concat ?cs). r < length h"
    unfolding grid_inv_def grid_shape_def by blast+
  have "\<forall>c\<in>set (concat ?cs). readable h c"
    using grid_inv_readable [OF inv] by blast
  from nextRows_eq [OF this, where ext = "[]"] have nr: "nextRows h ?cs = Inr (?h1, ?cs')" by simp
  have c1: "int (length ?cs') = height g" using s1 by (simp add: length_freshRefs)
  have c2: "\<forall>row\<in>set ?cs'. int (length row) = width g"
  proof
    fix row assume "row \<in> set ?cs'"
    then obtain y where y: "y < length ?cs'" and row: "row = ?cs' ! y" by (auto simp: in_set_conv_nth)
    from y have y': "y < length ?cs" by (simp add: length_freshRefs)
    then have "?cs ! y \<in> set ?cs" by (rule nth_mem)
    with s2 have "int (length (?cs ! y)) = width g" by blast
    with row y' show "int (length row) = width g" by (simp add: length_freshRefs_nth)
  qed
  from assignNeighbors_assigned [OF shape_imp_bounds [OF c1 c2], of ?h1 ?cs'] obtain h' where
    an: "assignNeighbors ?h1 ?cs' (width g) (height g) ?cs' = Inr h'"
    and asg: "assigned ?cs' (width g) (height g) (set (concat ?cs')) ?h1 h'"
    by blast
  from asg have st: "\<And>q. state (h' ! q) = state (?h1 ! q)"
    unfolding assigned_def by blast
  have cell: "\<And>y x. y < length ?cs \<Longrightarrow> x < length (?cs ! y) \<Longrightarrow>
      ?h1 ! (?cs' ! y ! x) = stepCell h (?cs ! y ! x)"
    using freshRefs_nth [where rows = ?cs and xs = h and f = "stepCell h"] by simp
  have coord: "\<forall>y<length ?cs. \<forall>x<length (?cs ! y).
      cell_x (?h1 ! (?cs' ! y ! x)) = int x \<and> cell_y (?h1 ! (?cs' ! y ! x)) = int y"
    using co by (simp add: cell stepCell_def)
  have len: "length ?h1 = length h + length (concat ?cs)" by simp
  note fg = fresh_grid [OF refl len s1 s2 coord asg]
  have g': "g\<lparr>cells := ?cs', generation := addOne (generation g)\<rparr> =
      \<lparr>cells = ?cs', width = width g, height = height g, generation = addOne (generation g)\<rparr>"
    by simp
  have 1: "createNextGeneration h g = Inr (h', g\<lparr>cells := ?cs', generation := addOne (generation g)\<rparr>)"
    by (simp add: createNextGeneration_def nr an)
  have 2: "grid_inv h' (g\<lparr>cells := ?cs', generation := addOne (generation g)\<rparr>)"
    using fg(1) [of "addOne (generation g)"] by (simp only: g')
  have 3: "\<forall>y<length ?cs. \<forall>x<length (?cs ! y).
        state (h' ! (?cs' ! y ! x)) = nextState h (?cs ! y ! x)"
    by (simp add: st cell stepCell_def)
  have 5: "\<forall>q<length h. state (h' ! q) = state (h ! q)"
    by (simp add: st nth_append)
  from that [OF 1 2 3 fg(3) 5] show thesis .
qed


subsection \<open>The addition of doubles is exact on the safe integers\<close>

declare bitLength.simps [simp del]





section \<open>areGridsEqual\<close>

declare equalRowFrom.simps [simp del] equalRowsFrom.simps [simp del]

lemma stateAt_eq:
  assumes "grid_shape g" and "0 \<le> x" and "x < width g" and "0 \<le> y" and "y < height g"
  shows "stateAt h g x y = Inr (state (h ! (cells g ! nat y ! nat x)))"
proof -
  from assms have l: "int (length (cells g)) = height g"
    and r: "\<forall>row\<in>set (cells g). int (length row) = width g"
    by (simp_all add: grid_shape_def)
  from l assms(4,5) have y: "nat y < length (cells g)" by linarith
  then have "cells g ! nat y \<in> set (cells g)" by (rule nth_mem)
  with r have "int (length (cells g ! nat y)) = width g" by blast
  with assms(2,3) have x: "nat x < length (cells g ! nat y)" by linarith
  from y assms(4) have "index_opt (cells g) y = Some (cells g ! nat y)"
    by (simp add: index_opt_def)
  moreover from x assms(2) have "index_opt (cells g ! nat y) x = Some (cells g ! nat y ! nat x)"
    by (simp add: index_opt_def)
  ultimately show ?thesis by (simp add: stateAt_def)
qed

lemma all_from_int:
  fixes a b :: int
  shows "(\<forall>i. a \<le> i \<and> i < b \<longrightarrow> Q i) \<longleftrightarrow> ((a < b \<longrightarrow> Q a) \<and> (\<forall>i. a + 1 \<le> i \<and> i < b \<longrightarrow> Q i))"
proof
  assume l: "\<forall>i. a \<le> i \<and> i < b \<longrightarrow> Q i"
  show "(a < b \<longrightarrow> Q a) \<and> (\<forall>i. a + 1 \<le> i \<and> i < b \<longrightarrow> Q i)"
  proof (intro conjI allI impI)
    assume "a < b"
    with l show "Q a" by simp
  next
    fix i assume "a + 1 \<le> i \<and> i < b"
    then have "a \<le> i \<and> i < b" by simp
    with l show "Q i" by blast
  qed
next
  assume r: "(a < b \<longrightarrow> Q a) \<and> (\<forall>i. a + 1 \<le> i \<and> i < b \<longrightarrow> Q i)"
  show "\<forall>i. a \<le> i \<and> i < b \<longrightarrow> Q i"
  proof (intro allI impI)
    fix i assume i: "a \<le> i \<and> i < b"
    show "Q i"
    proof (cases "i = a")
      case True
      with i have "a < b" by simp
      with r True show ?thesis by blast
    next
      case False
      with i have "a + 1 \<le> i \<and> i < b" by simp
      with r show ?thesis by blast
    qed
  qed
qed

lemma equalRowFrom_eq:
  assumes "grid_shape g1" and "grid_shape g2" and "width g2 = width g1" and "height g2 = height g1"
    and "0 \<le> y" and "y < height g1"
  shows "0 \<le> x \<Longrightarrow> equalRowFrom h g1 g2 y x =
      Inr (\<forall>x'. x \<le> x' \<and> x' < width g1 \<longrightarrow>
             state (h ! (cells g1 ! nat y ! nat x')) = state (h ! (cells g2 ! nat y ! nat x')))"
  using assms
proof (induction h g1 g2 y x rule: equalRowFrom.induct)
  case (1 h grid1 grid2 y x)
  show ?case
  proof (cases "x < width grid1")
    case False
    then have "equalRowFrom h grid1 grid2 y x = Inr True"
      by (subst equalRowFrom.simps) simp
    moreover from False have "(\<forall>x'. x \<le> x' \<and> x' < width grid1 \<longrightarrow>
        state (h ! (cells grid1 ! nat y ! nat x')) = state (h ! (cells grid2 ! nat y ! nat x'))) = True"
      by auto
    ultimately show ?thesis by (simp only:)
  next
    case True
    have s1: "stateAt h grid1 x y = Inr (state (h ! (cells grid1 ! nat y ! nat x)))"
      using "1.prems" True by (simp add: stateAt_eq)
    have s2: "stateAt h grid2 x y = Inr (state (h ! (cells grid2 ! nat y ! nat x)))"
      using "1.prems" True by (simp add: stateAt_eq)
    show ?thesis
    proof (cases "state (h ! (cells grid1 ! nat y ! nat x)) = state (h ! (cells grid2 ! nat y ! nat x))")
      case False
      with True s1 s2 "1.prems"(1) show ?thesis
        by (subst equalRowFrom.simps) auto
    next
      case same: True
      have ih: "equalRowFrom h grid1 grid2 y (x + 1) =
          Inr (\<forall>x'. x + 1 \<le> x' \<and> x' < width grid1 \<longrightarrow>
             state (h ! (cells grid1 ! nat y ! nat x')) = state (h ! (cells grid2 ! nat y ! nat x')))"
        using "1.IH" [OF True s1 s2] same "1.prems" by simp
      have split: "\<And>x'. x \<le> x' \<longleftrightarrow> x' = x \<or> x + 1 \<le> x'" by linarith
      have "(\<forall>x'. x \<le> x' \<and> x' < width grid1 \<longrightarrow>
             state (h ! (cells grid1 ! nat y ! nat x')) = state (h ! (cells grid2 ! nat y ! nat x')))
          \<longleftrightarrow> (\<forall>x'. x + 1 \<le> x' \<and> x' < width grid1 \<longrightarrow>
             state (h ! (cells grid1 ! nat y ! nat x')) = state (h ! (cells grid2 ! nat y ! nat x')))"
        using same True by (auto simp: split)
      with True s1 s2 same ih show ?thesis
        by (subst equalRowFrom.simps) simp
    qed
  qed
qed

lemma equalRowsFrom_eq:
  assumes "grid_shape g1" and "grid_shape g2" and "width g2 = width g1" and "height g2 = height g1"
  shows "0 \<le> y \<Longrightarrow> equalRowsFrom h g1 g2 y =
      Inr (\<forall>y'. y \<le> y' \<and> y' < height g1 \<longrightarrow>
            (\<forall>x'. 0 \<le> x' \<and> x' < width g1 \<longrightarrow>
               state (h ! (cells g1 ! nat y' ! nat x')) = state (h ! (cells g2 ! nat y' ! nat x'))))"
  using assms
proof (induction h g1 g2 y rule: equalRowsFrom.induct)
  case (1 h grid1 grid2 y)
  let ?Q = "\<lambda>y'. \<forall>x'. 0 \<le> x' \<and> x' < width grid1 \<longrightarrow>
      state (h ! (cells grid1 ! nat y' ! nat x')) = state (h ! (cells grid2 ! nat y' ! nat x'))"
  have unfold: "(\<forall>y'. y \<le> y' \<and> y' < height grid1 \<longrightarrow> ?Q y') \<longleftrightarrow>
      ((y < height grid1 \<longrightarrow> ?Q y) \<and> (\<forall>y'. y + 1 \<le> y' \<and> y' < height grid1 \<longrightarrow> ?Q y'))"
    by (rule all_from_int)
  show ?case
  proof (cases "y < height grid1")
    case False
    then have "equalRowsFrom h grid1 grid2 y = Inr True"
      by (subst equalRowsFrom.simps) simp
    moreover from False have "(\<forall>y'. y \<le> y' \<and> y' < height grid1 \<longrightarrow> ?Q y') = True"
      by auto
    ultimately show ?thesis by (simp only:)
  next
    case True
    have row: "equalRowFrom h grid1 grid2 y 0 = Inr (?Q y)"
      using "1.prems" True by (simp add: equalRowFrom_eq)
    show ?thesis
    proof (cases "?Q y")
      case False
      then have "equalRowFrom h grid1 grid2 y 0 = Inr False" using row by simp
      with True have "equalRowsFrom h grid1 grid2 y = Inr False"
        by (subst equalRowsFrom.simps) simp
      moreover from False True have "(\<forall>y'. y \<le> y' \<and> y' < height grid1 \<longrightarrow> ?Q y') = False"
        unfolding unfold by blast
      ultimately show ?thesis by (simp only:)
    next
      case all: True
      then have r: "equalRowFrom h grid1 grid2 y 0 = Inr True" using row by simp
      have ih: "equalRowsFrom h grid1 grid2 (y + 1) =
          Inr (\<forall>y'. y + 1 \<le> y' \<and> y' < height grid1 \<longrightarrow> ?Q y')"
        using "1.IH" [OF True r] "1.prems" by simp
      have "(\<forall>y'. y \<le> y' \<and> y' < height grid1 \<longrightarrow> ?Q y')
          \<longleftrightarrow> (\<forall>y'. y + 1 \<le> y' \<and> y' < height grid1 \<longrightarrow> ?Q y')"
        unfolding unfold using all by blast
      moreover from True r have "equalRowsFrom h grid1 grid2 y = equalRowsFrom h grid1 grid2 (y + 1)"
        by (subst equalRowsFrom.simps) simp
      ultimately show ?thesis using ih by (simp only:)
    qed
  qed
qed

lemma int_grid_all:
  "(\<forall>y'. (0::int) \<le> y' \<and> y' < H \<longrightarrow> (\<forall>x'. (0::int) \<le> x' \<and> x' < W \<longrightarrow> P (nat y') (nat x')))
     \<longleftrightarrow> (\<forall>y<nat H. \<forall>x<nat W. P y x)"
proof
  assume l: "\<forall>y'. 0 \<le> y' \<and> y' < H \<longrightarrow> (\<forall>x'. 0 \<le> x' \<and> x' < W \<longrightarrow> P (nat y') (nat x'))"
  show "\<forall>y<nat H. \<forall>x<nat W. P y x"
  proof (intro allI impI)
    fix y x assume "y < nat H" "x < nat W"
    then have "0 \<le> int y \<and> int y < H" "0 \<le> int x \<and> int x < W" by linarith+
    with l have "P (nat (int y)) (nat (int x))" by blast
    then show "P y x" by simp
  qed
next
  assume r: "\<forall>y<nat H. \<forall>x<nat W. P y x"
  show "\<forall>y'. 0 \<le> y' \<and> y' < H \<longrightarrow> (\<forall>x'. 0 \<le> x' \<and> x' < W \<longrightarrow> P (nat y') (nat x'))"
  proof (intro allI impI)
    fix y' x' assume "0 \<le> y' \<and> y' < H" "0 \<le> x' \<and> x' < W"
    then have "nat y' < nat H" "nat x' < nat W" by linarith+
    with r show "P (nat y') (nat x')" by blast
  qed
qed

lemma areGridsEqual_eq:
  assumes "grid_shape g1" and "grid_shape g2"
  shows "areGridsEqual h g1 g2 =
      Inr (width g1 = width g2 \<and> height g1 = height g2 \<and>
           (\<forall>y<nat (height g1). \<forall>x<nat (width g1).
              state (h ! (cells g1 ! y ! x)) = state (h ! (cells g2 ! y ! x))))"
proof (cases "width g1 \<noteq> width g2 \<or> height g1 \<noteq> height g2")
  case True
  then show ?thesis by (auto simp: areGridsEqual_def)
next
  case False
  then have eq: "width g2 = width g1" "height g2 = height g1" by simp_all
  have "areGridsEqual h g1 g2 = equalRowsFrom h g1 g2 0"
    using False by (simp add: areGridsEqual_def)
  also have "\<dots> = Inr (\<forall>y'. 0 \<le> y' \<and> y' < height g1 \<longrightarrow>
            (\<forall>x'. 0 \<le> x' \<and> x' < width g1 \<longrightarrow>
               state (h ! (cells g1 ! nat y' ! nat x')) = state (h ! (cells g2 ! nat y' ! nat x'))))"
    by (rule equalRowsFrom_eq [OF assms eq]) simp
  also have "(\<forall>y'. 0 \<le> y' \<and> y' < height g1 \<longrightarrow>
            (\<forall>x'. 0 \<le> x' \<and> x' < width g1 \<longrightarrow>
               state (h ! (cells g1 ! nat y' ! nat x')) = state (h ! (cells g2 ! nat y' ! nat x'))))
      \<longleftrightarrow> (\<forall>y<nat (height g1). \<forall>x<nat (width g1).
              state (h ! (cells g1 ! y ! x)) = state (h ! (cells g2 ! y ! x)))"
    by (rule int_grid_all)
  finally show ?thesis using eq by simp
qed

lemma stateAt_cong:
  assumes "\<And>q. state (h' ! q) = state (h ! q)" and "cells a' = cells a"
  shows "stateAt h' a' x y = stateAt h a x y"
  using assms by (simp add: stateAt_def split: option.split)

lemma equalRowFrom_cong:
  assumes "\<And>q. state (h' ! q) = state (h ! q)"
    and "cells a' = cells a" and "width a' = width a" and "cells b' = cells b"
  shows "equalRowFrom h' a' b' y x = equalRowFrom h a b y x"
  using assms
proof (induction h a b y x rule: equalRowFrom.induct)
  case (1 h grid1 grid2 y x)
  have sa: "stateAt h' a' x y = stateAt h grid1 x y"
    by (rule stateAt_cong [OF "1.prems"(1) "1.prems"(2)])
  have sb: "stateAt h' b' x y = stateAt h grid2 x y"
    by (rule stateAt_cong [OF "1.prems"(1) "1.prems"(4)])
  have L: "equalRowFrom h' a' b' y x =
     (if x < width grid1 then
        (case stateAt h grid1 x y of
           Inl e \<Rightarrow> Inl e
         | Inr s1 \<Rightarrow>
             (case stateAt h grid2 x y of
                Inl e \<Rightarrow> Inl e
              | Inr s2 \<Rightarrow> if s1 \<noteq> s2 then Inr False else equalRowFrom h' a' b' y (x + 1)))
      else Inr True)"
    by (subst equalRowFrom.simps) (simp only: sa sb "1.prems"(3))
  have R: "equalRowFrom h grid1 grid2 y x =
     (if x < width grid1 then
        (case stateAt h grid1 x y of
           Inl e \<Rightarrow> Inl e
         | Inr s1 \<Rightarrow>
             (case stateAt h grid2 x y of
                Inl e \<Rightarrow> Inl e
              | Inr s2 \<Rightarrow> if s1 \<noteq> s2 then Inr False else equalRowFrom h grid1 grid2 y (x + 1)))
      else Inr True)"
    by (rule equalRowFrom.simps)
  have ih: "equalRowFrom h' a' b' y (x + 1) = equalRowFrom h grid1 grid2 y (x + 1)"
    if a: "x < width grid1" "stateAt h grid1 x y = Inr s1" "stateAt h grid2 x y = Inr s2" "s1 = s2"
    for s1 s2
  proof -
    from a(4) have ne: "\<not> s1 \<noteq> s2" by simp
    show ?thesis by (rule "1.IH" [OF a(1) a(2) a(3) ne "1.prems"])
  qed
  show ?case
  proof (cases "x < width grid1")
    case False
    then show ?thesis by (subst L, subst R) simp
  next
    case True
    show ?thesis
    proof (cases "stateAt h grid1 x y")
      case (Inl e)
      with True show ?thesis by (subst L, subst R) simp
    next
      case s1: (Inr s1)
      show ?thesis
      proof (cases "stateAt h grid2 x y")
        case (Inl e)
        with True s1 show ?thesis by (subst L, subst R) simp
      next
        case s2: (Inr s2)
        show ?thesis
        proof (cases "s1 = s2")
          case False
          with True s1 s2 show ?thesis by (subst L, subst R) simp
        next
          case same: True
          from ih [OF True s1 s2 same] True s1 s2 same show ?thesis
            by (subst L, subst R) simp
        qed
      qed
    qed
  qed
qed

lemma equalRowsFrom_cong:
  assumes "\<And>q. state (h' ! q) = state (h ! q)"
    and "cells a' = cells a" and "width a' = width a" and "height a' = height a"
    and "cells b' = cells b"
  shows "equalRowsFrom h' a' b' y = equalRowsFrom h a b y"
  using assms
proof (induction h a b y rule: equalRowsFrom.induct)
  case (1 h grid1 grid2 y)
  have row: "equalRowFrom h' a' b' y 0 = equalRowFrom h grid1 grid2 y 0"
    by (rule equalRowFrom_cong [OF "1.prems"(1) "1.prems"(2) "1.prems"(3) "1.prems"(5)])
  have L: "equalRowsFrom h' a' b' y =
     (if y < height grid1 then
        (case equalRowFrom h grid1 grid2 y 0 of
           Inl e \<Rightarrow> Inl e
         | Inr False \<Rightarrow> Inr False
         | Inr True \<Rightarrow> equalRowsFrom h' a' b' (y + 1))
      else Inr True)"
    by (subst equalRowsFrom.simps) (simp only: row "1.prems"(4))
  have R: "equalRowsFrom h grid1 grid2 y =
     (if y < height grid1 then
        (case equalRowFrom h grid1 grid2 y 0 of
           Inl e \<Rightarrow> Inl e
         | Inr False \<Rightarrow> Inr False
         | Inr True \<Rightarrow> equalRowsFrom h grid1 grid2 (y + 1))
      else Inr True)"
    by (rule equalRowsFrom.simps)
  have ih: "equalRowsFrom h' a' b' (y + 1) = equalRowsFrom h grid1 grid2 (y + 1)"
    if a: "y < height grid1" "equalRowFrom h grid1 grid2 y 0 = Inr True"
    by (rule "1.IH" [OF a(1) a(2) _ "1.prems"]) simp
  show ?case
  proof (cases "y < height grid1")
    case False
    then show ?thesis by (subst L, subst R) simp
  next
    case True
    show ?thesis
    proof (cases "equalRowFrom h grid1 grid2 y 0")
      case (Inl e)
      with True show ?thesis by (subst L, subst R) simp
    next
      case (Inr b)
      show ?thesis
      proof (cases b)
        case False
        with True Inr show ?thesis by (subst L, subst R) simp
      next
        case tt: True
        with Inr have r: "equalRowFrom h grid1 grid2 y 0 = Inr True" by simp
        from ih [OF True r] True r show ?thesis by (subst L, subst R) simp
      qed
    qed
  qed
qed

lemma areGridsEqual_cong:
  assumes "\<And>q. state (h' ! q) = state (h ! q)"
    and "cells a' = cells a" and "width a' = width a" and "height a' = height a"
    and "cells b' = cells b" and "width b' = width b" and "height b' = height b"
  shows "areGridsEqual h' a' b' = areGridsEqual h a b"
proof -
  have "equalRowsFrom h' a' b' 0 = equalRowsFrom h a b 0"
    by (rule equalRowsFrom_cong [OF assms(1) assms(2) assms(3) assms(4) assms(5)])
  with assms(3,4,6,7) show ?thesis by (simp add: areGridsEqual_def)
qed

section \<open>Properties of the adjacency rule\<close>

lemma mem_directions:
  "(dx, dy) \<in> set directions \<longleftrightarrow> - 1 \<le> dx \<and> dx \<le> 1 \<and> - 1 \<le> dy \<and> dy \<le> 1 \<and> (dx, dy) \<noteq> (0, 0)"
proof
  assume "(dx, dy) \<in> set directions"
  then show "- 1 \<le> dx \<and> dx \<le> 1 \<and> - 1 \<le> dy \<and> dy \<le> 1 \<and> (dx, dy) \<noteq> (0, 0)"
    by (auto simp: directions_def)
next
  assume a: "- 1 \<le> dx \<and> dx \<le> 1 \<and> - 1 \<le> dy \<and> dy \<le> 1 \<and> (dx, dy) \<noteq> (0, 0)"
  then have "dx = - 1 \<or> dx = 0 \<or> dx = 1" and "dy = - 1 \<or> dy = 0 \<or> dy = 1" by linarith+
  with a show "(dx, dy) \<in> set directions"
    by (auto simp: directions_def)
qed

lemma distinct_directions: "distinct directions"
  by (simp add: directions_def)

lemma length_directions: "length directions = 8"
  by (simp add: directions_def)

lemma all_directions_inBounds:
  "(\<forall>d\<in>set directions. inBounds w hg (int x) (int y) d) \<longleftrightarrow>
     0 < x \<and> int x + 1 < w \<and> 0 < y \<and> int y + 1 < hg"
  by (auto simp: directions_def inBounds_def)

lemma grid_inv_inj:
  assumes "grid_inv h g"
    and "y < length (cells g)" and "x < length (cells g ! y)"
    and "y' < length (cells g)" and "x' < length (cells g ! y')"
    and "cells g ! y ! x = cells g ! y' ! x'"
  shows "y = y' \<and> x = x'"
proof -
  from assms(1) have co: "\<forall>y<length (cells g). \<forall>x<length (cells g ! y).
        cell_x (h ! (cells g ! y ! x)) = int x \<and> cell_y (h ! (cells g ! y ! x)) = int y"
    unfolding grid_inv_def by blast
  from co assms(2,3) have "cell_x (h ! (cells g ! y ! x)) = int x" "cell_y (h ! (cells g ! y ! x)) = int y"
    by blast+
  moreover from co assms(4,5) have
    "cell_x (h ! (cells g ! y' ! x')) = int x'" "cell_y (h ! (cells g ! y' ! x')) = int y'"
    by blast+
  ultimately show ?thesis using assms(6) by simp
qed

lemma inBounds_position:
  assumes "grid_shape g" and "inBounds (width g) (height g) cx cy d"
  shows "nat (cy + snd d) < length (cells g)"
    and "nat (cx + fst d) < length (cells g ! nat (cy + snd d))"
proof -
  from assms(1) have l: "int (length (cells g)) = height g"
    and r: "\<forall>row\<in>set (cells g). int (length row) = width g"
    by (simp_all add: grid_shape_def)
  from assms(2) have b: "0 \<le> cx + fst d" "cx + fst d < width g" "0 \<le> cy + snd d" "cy + snd d < height g"
    by (simp_all add: inBounds_def)
  from b l show y: "nat (cy + snd d) < length (cells g)" by linarith
  then have "cells g ! nat (cy + snd d) \<in> set (cells g)" by (rule nth_mem)
  with r have "int (length (cells g ! nat (cy + snd d))) = width g" by blast
  with b show "nat (cx + fst d) < length (cells g ! nat (cy + snd d))" by linarith
qed

lemma adjacent_inj:
  assumes inv: "grid_inv h g"
    and d: "inBounds (width g) (height g) cx cy d" and e: "inBounds (width g) (height g) cx cy e"
    and eq: "cells g ! nat (cy + snd d) ! nat (cx + fst d) = cells g ! nat (cy + snd e) ! nat (cx + fst e)"
  shows "d = e"
proof -
  from inv have sh: "grid_shape g" by (simp add: grid_inv_def)
  from grid_inv_inj [OF inv inBounds_position [OF sh d] inBounds_position [OF sh e] eq]
  have "nat (cy + snd d) = nat (cy + snd e)" "nat (cx + fst d) = nat (cx + fst e)" by simp_all
  moreover from d e have "0 \<le> cx + fst d" "0 \<le> cy + snd d" "0 \<le> cx + fst e" "0 \<le> cy + snd e"
    by (simp_all add: inBounds_def)
  ultimately have "fst d = fst e" "snd d = snd e" by linarith+
  then show ?thesis by (simp add: prod_eq_iff)
qed

lemma distinct_adjacent:
  assumes "grid_inv h g"
  shows "distinct (adjacent (cells g) (width g) (height g) cx cy directions)"
proof -
  let ?f = "\<lambda>d. Some (cells g ! nat (cy + snd d) ! nat (cx + fst d))"
  let ?ds = "filter (inBounds (width g) (height g) cx cy) directions"
  have "distinct ?ds" using distinct_directions by simp
  moreover have "inj_on ?f (set ?ds)"
  proof (rule inj_onI)
    fix d e assume "d \<in> set ?ds" "e \<in> set ?ds" "?f d = ?f e"
    then show "d = e" using adjacent_inj [OF assms, of cx cy d e] by simp
  qed
  ultimately show ?thesis by (simp add: adjacent_def distinct_map)
qed

lemma self_not_adjacent:
  assumes inv: "grid_inv h g" and y: "y < length (cells g)" and x: "x < length (cells g ! y)"
  shows "Some (cells g ! y ! x) \<notin> set (adjacent (cells g) (width g) (height g) (int x) (int y) directions)"
proof
  assume "Some (cells g ! y ! x) \<in> set (adjacent (cells g) (width g) (height g) (int x) (int y) directions)"
  then obtain d where d: "d \<in> set directions" "inBounds (width g) (height g) (int x) (int y) d"
    and eq: "cells g ! y ! x = cells g ! nat (int y + snd d) ! nat (int x + fst d)"
    by (auto simp: adjacent_def)
  from inv have sh: "grid_shape g" by (simp add: grid_inv_def)
  from grid_inv_inj [OF inv y x inBounds_position [OF sh d(2)] eq]
  have "y = nat (int y + snd d)" "x = nat (int x + fst d)" by simp_all
  moreover from d(2) have "0 \<le> int x + fst d" "0 \<le> int y + snd d" by (simp_all add: inBounds_def)
  ultimately have "fst d = 0" "snd d = 0" by linarith+
  then have "d = (0, 0)" by (simp add: prod_eq_iff)
  with d(1) show False by (simp add: mem_directions)
qed

lemma length_adjacent_interior:
  assumes "0 < x \<and> int x + 1 < w \<and> 0 < y \<and> int y + 1 < hg"
  shows "length (adjacent cs w hg (int x) (int y) directions) = 8"
proof -
  let ?P = "inBounds w hg (int x) (int y)"
  from assms have "\<forall>d\<in>set directions. ?P d" unfolding all_directions_inBounds .
  then have "filter ?P directions = directions" by (simp only: filter_id_conv)
  then show ?thesis by (simp add: adjacent_def length_directions)
qed

lemma length_adjacent_border:
  assumes "\<not> (0 < x \<and> int x + 1 < w \<and> 0 < y \<and> int y + 1 < hg)"
  shows "length (adjacent cs w hg (int x) (int y) directions) < 8"
proof -
  let ?P = "inBounds w hg (int x) (int y)"
  from assms have "\<not> (\<forall>d\<in>set directions. ?P d)" unfolding all_directions_inBounds .
  then obtain d where "d \<in> set directions" "\<not> ?P d" by blast
  then have "length (filter ?P directions) < length directions" by (rule length_filter_less)
  then show ?thesis by (simp add: adjacent_def length_directions)
qed

lemma set_adjacent:
  "set (adjacent (cells g) (width g) (height g) (int x) (int y) directions) =
     {Some (cells g ! y' ! x') | x' y'.
        int x' < width g \<and> int y' < height g \<and> (x', y') \<noteq> (x, y) \<and>
        \<bar>int x' - int x\<bar> \<le> 1 \<and> \<bar>int y' - int y\<bar> \<le> 1}"
  (is "?L = ?R")
proof (intro equalityI subsetI)
  fix n assume "n \<in> ?L"
  then obtain d where d: "d \<in> set directions" "inBounds (width g) (height g) (int x) (int y) d"
    and n: "n = Some (cells g ! nat (int y + snd d) ! nat (int x + fst d))"
    by (auto simp: adjacent_def)
  obtain dx dy where dd: "d = (dx, dy)" by (cases d)
  from d(1) dd have m: "- 1 \<le> dx \<and> dx \<le> 1 \<and> - 1 \<le> dy \<and> dy \<le> 1 \<and> (dx, dy) \<noteq> (0, 0)"
    by (simp add: mem_directions)
  from d(2) dd have b: "0 \<le> int x + dx" "int x + dx < width g" "0 \<le> int y + dy" "int y + dy < height g"
    by (simp_all add: inBounds_def)
  let ?x' = "nat (int x + dx)" and ?y' = "nat (int y + dy)"
  from b have ix: "int ?x' = int x + dx" and iy: "int ?y' = int y + dy" by simp_all
  have "int ?x' < width g \<and> int ?y' < height g \<and> (?x', ?y') \<noteq> (x, y) \<and>
        \<bar>int ?x' - int x\<bar> \<le> 1 \<and> \<bar>int ?y' - int y\<bar> \<le> 1"
    using m b unfolding ix iy by auto
  moreover from n dd have "n = Some (cells g ! ?y' ! ?x')" by simp
  ultimately show "n \<in> ?R" by blast
next
  fix n assume "n \<in> ?R"
  then obtain x' y' where n: "n = Some (cells g ! y' ! x')"
    and c: "int x' < width g" "int y' < height g" "(x', y') \<noteq> (x, y)"
      "\<bar>int x' - int x\<bar> \<le> 1" "\<bar>int y' - int y\<bar> \<le> 1"
    by blast
  let ?d = "(int x' - int x, int y' - int y)"
  from c have "?d \<in> set directions" unfolding mem_directions by auto
  moreover from c have "inBounds (width g) (height g) (int x) (int y) ?d"
    by (simp add: inBounds_def)
  ultimately have "Some (cells g ! nat (int y + snd ?d) ! nat (int x + fst ?d)) \<in> ?L"
    by (rule mem_adjacentI)
  then show "n \<in> ?L" using n by simp
qed

section \<open>Grids without live cells\<close>

lemma nextState_all_dead:
  assumes inv: "grid_inv h g" and dead: "\<forall>r\<in>set (concat (cells g)). state (h ! r) = Dead"
    and c: "c \<in> set (concat (cells g))"
  shows "nextState h c = Dead"
proof -
  from inv c have sub: "set (neighbors (h ! c)) \<subseteq> Some ` set (concat (cells g))"
    unfolding grid_inv_def by blast
  have "filter (\<lambda>n. case n of None \<Rightarrow> False | Some r \<Rightarrow> state (h ! r) = Alive) (neighbors (h ! c)) = []"
  proof (rule filter_False, rule ballI)
    fix n assume "n \<in> set (neighbors (h ! c))"
    with sub obtain r where n: "n = Some r" and "r \<in> set (concat (cells g))" by blast
    with dead have "state (h ! r) = Dead" by blast
    with n show "\<not> (case n of None \<Rightarrow> False | Some r \<Rightarrow> state (h ! r) = Alive)" by simp
  qed
  then have "liveNeighborCount h (h ! c) = 0" by (simp add: liveNeighborCount_def)
  then show ?thesis by (simp add: nextState_def)
qed

lemma createNextGeneration_all_dead:
  assumes inv: "grid_inv h g" and dead: "\<forall>r\<in>set (concat (cells g)). state (h ! r) = Dead"
  shows "\<exists>h' g'. createNextGeneration h g = Inr (h', g') \<and> grid_inv h' g' \<and>
      (\<forall>r\<in>set (concat (cells g')). state (h' ! r) = Dead) \<and>
      areGridsEqual h' g g' = Inr True"
proof -
  obtain h' cs' where
    step: "createNextGeneration h g = Inr (h', g\<lparr>cells := cs', generation := addOne (generation g)\<rparr>)"
    and inv': "grid_inv h' (g\<lparr>cells := cs', generation := addOne (generation g)\<rparr>)"
    and st: "\<forall>y<length (cells g). \<forall>x<length (cells g ! y).
        state (h' ! (cs' ! y ! x)) = nextState h (cells g ! y ! x)"
    and "concat cs' = [length h..<length h']"
    and old: "\<forall>q<length h. state (h' ! q) = state (h ! q)"
    by (rule createNextGeneration_stepped [OF inv])
  let ?g' = "g\<lparr>cells := cs', generation := addOne (generation g)\<rparr>"
  from inv have sh: "grid_shape g" and valid: "\<forall>r\<in>set (concat (cells g)). r < length h"
    unfolding grid_inv_def by blast+
  from inv' have sh': "grid_shape ?g'" by (simp add: grid_inv_def)
  have new: "state (h' ! (cs' ! y ! x)) = Dead" and was: "state (h' ! (cells g ! y ! x)) = Dead"
    if y: "y < nat (height g)" and x: "x < nat (width g)" for y x
  proof -
    from y grid_shape_lengths(1) [OF sh] have y': "y < length (cells g)" by simp
    from x grid_shape_lengths(2) [OF sh y'] have x': "x < length (cells g ! y)" by simp
    from y' x' have mem: "cells g ! y ! x \<in> set (concat (cells g))" by (rule nth_nth_mem_concat)
    from st y' x' have "state (h' ! (cs' ! y ! x)) = nextState h (cells g ! y ! x)" by blast
    with nextState_all_dead [OF inv dead mem] show "state (h' ! (cs' ! y ! x)) = Dead" by simp
    from valid mem have "cells g ! y ! x < length h" by blast
    with old have "state (h' ! (cells g ! y ! x)) = state (h ! (cells g ! y ! x))" by blast
    moreover from dead mem have "state (h ! (cells g ! y ! x)) = Dead" by blast
    ultimately show "state (h' ! (cells g ! y ! x)) = Dead" by simp
  qed
  have alldead: "\<forall>r\<in>set (concat (cells ?g')). state (h' ! r) = Dead"
  proof
    fix r assume "r \<in> set (concat (cells ?g'))"
    then obtain y x where yx: "y < length (cells ?g')" "x < length (cells ?g' ! y)"
      and r: "r = cells ?g' ! y ! x"
      by (rule mem_concat_nth)
    from yx(1) grid_shape_lengths(1) [OF sh'] have y: "y < nat (height g)" by simp
    from yx(2) grid_shape_lengths(2) [OF sh' yx(1)] have x: "x < nat (width g)" by simp
    from new [OF y x] r show "state (h' ! r) = Dead" by simp
  qed
  have "areGridsEqual h' g ?g' =
      Inr (width g = width ?g' \<and> height g = height ?g' \<and>
           (\<forall>y<nat (height g). \<forall>x<nat (width g).
              state (h' ! (cells g ! y ! x)) = state (h' ! (cells ?g' ! y ! x))))"
    by (rule areGridsEqual_eq [OF sh sh'])
  also have "\<dots> = Inr True" using new was by simp
  finally have "areGridsEqual h' g ?g' = Inr True" .
  with step inv' alldead show ?thesis by blast
qed

section \<open>The example grids are grids of the engine\<close>

lemma row3_constructed:
  "createInitialGrid [] 3 1 [aliveAt 0 0, aliveAt 1 0, aliveAt 2 0] = Inr (row3_heap, row3_grid)"
  by code_simp

lemma dead3_constructed: "createInitialGrid [] 3 1 [] = Inr (dead3_heap, row3_grid)"
  by code_simp

section \<open>The claims\<close>

text \<open>
  C1. For every well-formed grid, \<open>createNextGeneration\<close> returns, and the state of each cell
  of the result is computed from the store before the step only: the cell at \<open>(x, y)\<close> is
  Alive if it was Alive with a live-neighbor count of 2 or 3, or Dead with a live-neighbor
  count of exactly 3, and Dead in every other case; the live-neighbor count is the number
  of the cell's cached neighbors whose state is Alive before the step.
\<close>

theorem createNextGeneration_rule:
  assumes "grid_inv h g"
  shows "\<exists>h' g'. createNextGeneration h g = Inr (h', g') \<and>
      (\<forall>y<nat (height g). \<forall>x<nat (width g).
         state (h' ! (cells g' ! y ! x)) =
           (if (state (h ! (cells g ! y ! x)) = Alive \<and>
                (liveNeighborCount h (h ! (cells g ! y ! x)) = 2 \<or>
                 liveNeighborCount h (h ! (cells g ! y ! x)) = 3)) \<or>
               (state (h ! (cells g ! y ! x)) = Dead \<and>
                liveNeighborCount h (h ! (cells g ! y ! x)) = 3)
            then Alive else Dead))"
proof -
  from assms have sh: "grid_shape g" by (simp add: grid_inv_def)
  obtain h' cs' where
    step: "createNextGeneration h g = Inr (h', g\<lparr>cells := cs', generation := addOne (generation g)\<rparr>)"
    and "grid_inv h' (g\<lparr>cells := cs', generation := addOne (generation g)\<rparr>)"
    and st: "\<forall>y<length (cells g). \<forall>x<length (cells g ! y).
        state (h' ! (cs' ! y ! x)) = nextState h (cells g ! y ! x)"
    and "concat cs' = [length h..<length h']"
    and "\<forall>q<length h. state (h' ! q) = state (h ! q)"
    by (rule createNextGeneration_stepped [OF assms])
  let ?g' = "g\<lparr>cells := cs', generation := addOne (generation g)\<rparr>"
  have "\<forall>y<nat (height g). \<forall>x<nat (width g).
      state (h' ! (cells ?g' ! y ! x)) = nextState h (cells g ! y ! x)"
  proof (intro allI impI)
    fix y x assume y: "y < nat (height g)" and x: "x < nat (width g)"
    from y grid_shape_lengths(1) [OF sh] have y': "y < length (cells g)" by simp
    from x grid_shape_lengths(2) [OF sh y'] have x': "x < length (cells g ! y)" by simp
    from st y' x' have "state (h' ! (cs' ! y ! x)) = nextState h (cells g ! y ! x)" by blast
    then show "state (h' ! (cells ?g' ! y ! x)) = nextState h (cells g ! y ! x)" by simp
  qed
  with step show ?thesis unfolding nextState_def by blast
qed

theorem createNextGeneration_rule_witness:
  "grid_inv row3_heap row3_grid \<and>
   (\<exists>h' g'. createNextGeneration row3_heap row3_grid = Inr (h', g') \<and>
      state (h' ! (cells g' ! 0 ! 0)) = Dead \<and>
      state (h' ! (cells g' ! 0 ! 1)) = Alive \<and>
      state (h' ! (cells g' ! 0 ! 2)) = Dead)"
proof -
  have inv: "grid_inv row3_heap row3_grid" by code_simp
  from createNextGeneration_rule [OF inv] obtain h' g' where
    step: "createNextGeneration row3_heap row3_grid = Inr (h', g')"
    and rule: "\<forall>y<nat (height row3_grid). \<forall>x<nat (width row3_grid).
         state (h' ! (cells g' ! y ! x)) =
           (if (state (row3_heap ! (cells row3_grid ! y ! x)) = Alive \<and>
                (liveNeighborCount row3_heap (row3_heap ! (cells row3_grid ! y ! x)) = 2 \<or>
                 liveNeighborCount row3_heap (row3_heap ! (cells row3_grid ! y ! x)) = 3)) \<or>
               (state (row3_heap ! (cells row3_grid ! y ! x)) = Dead \<and>
                liveNeighborCount row3_heap (row3_heap ! (cells row3_grid ! y ! x)) = 3)
            then Alive else Dead)"
    by blast
  have b: "0 < nat (height row3_grid)" "0 < nat (width row3_grid)"
    "1 < nat (width row3_grid)" "2 < nat (width row3_grid)"
    by (simp_all add: row3_grid_def)
  from rule [rule_format, OF b(1) b(2)] have "state (h' ! (cells g' ! 0 ! 0)) = Dead"
    by (simp add: row3_grid_def row3_heap_def liveNeighborCount_def)
  moreover from rule [rule_format, OF b(1) b(3)] have "state (h' ! (cells g' ! 0 ! 1)) = Alive"
    by (simp add: row3_grid_def row3_heap_def liveNeighborCount_def)
  moreover from rule [rule_format, OF b(1) b(4)] have "state (h' ! (cells g' ! 0 ! 2)) = Dead"
    by (simp add: row3_grid_def row3_heap_def liveNeighborCount_def)
  ultimately show ?thesis using inv step by blast
qed

text \<open>
  C2. The claim is that every coordinate outside the grid is dropped without a crash, those
  with \<open>x < 0\<close> or \<open>y < 0\<close> included. The guard of the loop over \<open>aliveCells\<close> tests
  \<open>x < width\<close> and \<open>y < height\<close> only, so a negative coordinate passes it and the
  assignment to \<open>cells[y][x].state\<close> raises a TypeError: a negative \<open>y\<close> makes
  \<open>cells[y]\<close> undefined, a negative \<open>x\<close> makes \<open>cells[y][x]\<close> undefined.
  (\<open>getNeighbors\<close> tests both bounds of both coordinates.)
\<close>

theorem createInitialGrid_negative_coordinate_raises:
  "createInitialGrid [] 5 5 [aliveAt (-1) 0] = Inl TypeError \<and>
   createInitialGrid [] 5 5 [aliveAt 0 (-1)] = Inl TypeError"
  by code_simp

text \<open>
  C3, as stated, fails: a width of 0 with a positive height is not rejected, the constructor
  returns a grid of empty rows.
\<close>

theorem createInitialGrid_degenerate_counterexample:
  "createInitialGrid [] 0 3 [] =
     Inr ([], \<lparr>cells = [[], [], []], width = 0, height = 3, generation = 0\<rparr>)"
  by code_simp

text \<open>
  C3, amended. \<open>createInitialGrid\<close> has no test of its dimensions. It fails fast, with the
  RangeError of \<open>Array\<close>, for a negative height, and for a negative width when the height is
  positive. A height of 0 (with any width), and a width of 0 with a height that is an
  array length, are not rejected: with coordinates that are not negative the constructor
  returns a degenerate grid without cells and leaves the store as it is.
\<close>

theorem createInitialGrid_dimensions:
  "(hg < 0 \<or> (w < 0 \<and> 0 < hg) \<longrightarrow> createInitialGrid h w hg aliveCells = Inl RangeError) \<and>
   ((hg = 0 \<or> (w = 0 \<and> 0 < hg \<and> hg \<le> maxArrayLength)) \<and>
    (\<forall>a\<in>set aliveCells. 0 \<le> cell_x a \<and> 0 \<le> cell_y a) \<longrightarrow>
      createInitialGrid h w hg aliveCells =
        Inr (h, \<lparr>cells = replicate (nat hg) [], width = w, height = hg, generation = 0\<rparr>))"
proof (intro conjI impI)
  assume "hg < 0 \<or> (w < 0 \<and> 0 < hg)"
  then have "hg < 0 \<or> maxArrayLength < hg \<or> (0 < hg \<and> (w < 0 \<or> maxArrayLength < w))"
    by blast
  then show "createInitialGrid h w hg aliveCells = Inl RangeError"
    by (simp only: createInitialGrid_RangeError)
next
  assume a: "(hg = 0 \<or> (w = 0 \<and> 0 < hg \<and> hg \<le> maxArrayLength)) \<and>
    (\<forall>a\<in>set aliveCells. 0 \<le> cell_x a \<and> 0 \<le> cell_y a)"
  then have "hg = 0 \<or> (0 < hg \<and> hg \<le> maxArrayLength \<and> w = 0)" by blast
  moreover from a have "\<forall>a\<in>set aliveCells. 0 \<le> cell_x a \<and> 0 \<le> cell_y a" by blast
  ultimately show "createInitialGrid h w hg aliveCells =
        Inr (h, \<lparr>cells = replicate (nat hg) [], width = w, height = hg, generation = 0\<rparr>)"
    by (rule createInitialGrid_degenerate)
qed

theorem createInitialGrid_dimensions_witness:
  "createInitialGrid [] (- 2) 4 [aliveAt 0 0] = Inl RangeError \<and>
   createInitialGrid [] 0 2 [aliveAt 0 0] =
     Inr ([], \<lparr>cells = [[], []], width = 0, height = 2, generation = 0\<rparr>)"
proof -
  have "(4::int) < 0 \<or> ((- 2::int) < 0 \<and> (0::int) < 4)" by simp
  with createInitialGrid_dimensions [of 4 "- 2" "[]" "[aliveAt 0 0]"]
  have "createInitialGrid [] (- 2) 4 [aliveAt 0 0] = Inl RangeError" by blast
  moreover have "((2::int) = 0 \<or> ((0::int) = 0 \<and> (0::int) < 2 \<and> 2 \<le> maxArrayLength)) \<and>
      (\<forall>a\<in>set [aliveAt 0 0]. 0 \<le> cell_x a \<and> 0 \<le> cell_y a)"
    by (simp add: aliveAt_def maxArrayLength_def)
  with createInitialGrid_dimensions [of 2 0 "[]" "[aliveAt 0 0]"]
  have "createInitialGrid [] 0 2 [aliveAt 0 0] =
      Inr ([], \<lparr>cells = replicate (nat 2) [], width = 0, height = 2, generation = 0\<rparr>)"
    by blast
  ultimately show ?thesis by (simp add: numeral_2_eq_2)
qed

text \<open>
  C4. In a grid built by \<open>createInitialGrid\<close>, the neighbor list of the cell at \<open>(x, y)\<close> is
  the list of the in-bounds cells of the 3 by 3 block around it minus the center, in the
  fixed order of \<open>directions\<close>; as a set, the cells at a distance of at most one in each
  coordinate, inside the grid (no wraparound), other than the cell itself. The list has
  no duplicate, does not contain the cell itself, has exactly 8 entries for an interior
  cell and fewer than 8 for a cell on an edge or in a corner.
\<close>

theorem neighbors_of_constructed_grid:
  assumes "createInitialGrid h w hg aliveCells = Inr (h', g)" and "int x < w" and "int y < hg"
  shows "neighbors (h' ! (cells g ! y ! x)) = adjacent (cells g) w hg (int x) (int y) directions \<and>
     set (neighbors (h' ! (cells g ! y ! x))) =
       {Some (cells g ! y' ! x') | x' y'.
          int x' < w \<and> int y' < hg \<and> (x', y') \<noteq> (x, y) \<and>
          \<bar>int x' - int x\<bar> \<le> 1 \<and> \<bar>int y' - int y\<bar> \<le> 1} \<and>
     distinct (neighbors (h' ! (cells g ! y ! x))) \<and>
     Some (cells g ! y ! x) \<notin> set (neighbors (h' ! (cells g ! y ! x))) \<and>
     (0 < x \<and> int x + 1 < w \<and> 0 < y \<and> int y + 1 < hg \<longrightarrow>
        length (neighbors (h' ! (cells g ! y ! x))) = 8) \<and>
     (\<not> (0 < x \<and> int x + 1 < w \<and> 0 < y \<and> int y + 1 < hg) \<longrightarrow>
        length (neighbors (h' ! (cells g ! y ! x))) < 8)"
proof -
  note built = createInitialGrid_built [OF assms(1)]
  from built(2) have wh: "width g = w" "height g = hg" by simp_all
  from built(1) have sh: "grid_shape g" by (simp add: grid_inv_def)
  from assms(2,3) have xy: "y < nat hg" "x < nat w" by linarith+
  from built(3) xy have ns:
    "neighbors (h' ! (cells g ! y ! x)) = adjacent (cells g) w hg (int x) (int y) directions"
    by blast
  from xy grid_shape_lengths(1) [OF sh] wh have y': "y < length (cells g)" by simp
  from xy grid_shape_lengths(2) [OF sh y'] wh have x': "x < length (cells g ! y)" by simp
  have "set (adjacent (cells g) w hg (int x) (int y) directions) =
       {Some (cells g ! y' ! x') | x' y'.
          int x' < w \<and> int y' < hg \<and> (x', y') \<noteq> (x, y) \<and>
          \<bar>int x' - int x\<bar> \<le> 1 \<and> \<bar>int y' - int y\<bar> \<le> 1}"
    using set_adjacent [of g x y] unfolding wh .
  moreover have "distinct (adjacent (cells g) w hg (int x) (int y) directions)"
    using distinct_adjacent [OF built(1), of "int x" "int y"] unfolding wh .
  moreover have "Some (cells g ! y ! x) \<notin> set (adjacent (cells g) w hg (int x) (int y) directions)"
    using self_not_adjacent [OF built(1) y' x'] unfolding wh .
  moreover have "0 < x \<and> int x + 1 < w \<and> 0 < y \<and> int y + 1 < hg \<longrightarrow>
        length (adjacent (cells g) w hg (int x) (int y) directions) = 8"
    using length_adjacent_interior by blast
  moreover have "\<not> (0 < x \<and> int x + 1 < w \<and> 0 < y \<and> int y + 1 < hg) \<longrightarrow>
        length (adjacent (cells g) w hg (int x) (int y) directions) < 8"
    using length_adjacent_border by blast
  ultimately show ?thesis unfolding ns by blast
qed

theorem neighbors_of_constructed_grid_witness:
  "\<exists>h' g. createInitialGrid [] 3 3 [] = Inr (h', g) \<and>
     length (neighbors (h' ! (cells g ! 1 ! 1))) = 8 \<and>
     distinct (neighbors (h' ! (cells g ! 1 ! 1))) \<and>
     Some (cells g ! 1 ! 1) \<notin> set (neighbors (h' ! (cells g ! 1 ! 1))) \<and>
     length (neighbors (h' ! (cells g ! 0 ! 2))) < 8"
proof -
  have "\<not> isl (createInitialGrid [] 3 3 [])" by code_simp
  then obtain h' g where c: "createInitialGrid [] 3 3 [] = Inr (h', g)"
    by (cases "createInitialGrid [] 3 3 []") auto
  have "int 1 < (3::int)" "int 0 < (3::int)" "int 2 < (3::int)" by simp_all
  note mid = neighbors_of_constructed_grid [OF c \<open>int 1 < 3\<close> \<open>int 1 < 3\<close>]
  note corner = neighbors_of_constructed_grid [OF c \<open>int 2 < 3\<close> \<open>int 0 < 3\<close>]
  note c2 = conjunct2
  from mid [THEN c2, THEN c2, THEN conjunct1]
  have "distinct (neighbors (h' ! (cells g ! 1 ! 1)))" .
  moreover from mid [THEN c2, THEN c2, THEN c2, THEN conjunct1]
  have "Some (cells g ! 1 ! 1) \<notin> set (neighbors (h' ! (cells g ! 1 ! 1)))" .
  moreover from mid [THEN c2, THEN c2, THEN c2, THEN c2, THEN conjunct1]
  have "length (neighbors (h' ! (cells g ! 1 ! 1))) = 8" by simp
  moreover from corner [THEN c2, THEN c2, THEN c2, THEN c2, THEN c2]
  have "length (neighbors (h' ! (cells g ! 0 ! 2))) < 8" by simp
  ultimately show ?thesis using c by blast
qed

text \<open>
  C5. For grids of the right shape, \<open>areGridsEqual\<close> returns true iff the two grids have
  the same width, the same height and the same state at every \<open>(x, y)\<close>. It returns false
  whenever the widths or the heights differ, whatever the cells are. Its result does not
  depend on the generation counters, nor on the neighbor list of any cell.
\<close>

theorem areGridsEqual_characterisation:
  "(grid_shape g1 \<and> grid_shape g2 \<longrightarrow>
      areGridsEqual h g1 g2 =
        Inr (width g1 = width g2 \<and> height g1 = height g2 \<and>
             (\<forall>y<nat (height g1). \<forall>x<nat (width g1).
                state (h ! (cells g1 ! y ! x)) = state (h ! (cells g2 ! y ! x))))) \<and>
   (width g1 \<noteq> width g2 \<or> height g1 \<noteq> height g2 \<longrightarrow> areGridsEqual h g1 g2 = Inr False) \<and>
   areGridsEqual h (g1\<lparr>generation := n1\<rparr>) (g2\<lparr>generation := n2\<rparr>) = areGridsEqual h g1 g2 \<and>
   areGridsEqual (h[c := (h ! c)\<lparr>neighbors := ns\<rparr>]) g1 g2 = areGridsEqual h g1 g2"
proof (intro conjI impI)
  assume "grid_shape g1 \<and> grid_shape g2"
  then show "areGridsEqual h g1 g2 =
        Inr (width g1 = width g2 \<and> height g1 = height g2 \<and>
             (\<forall>y<nat (height g1). \<forall>x<nat (width g1).
                state (h ! (cells g1 ! y ! x)) = state (h ! (cells g2 ! y ! x))))"
    by (simp add: areGridsEqual_eq)
next
  assume "width g1 \<noteq> width g2 \<or> height g1 \<noteq> height g2"
  then show "areGridsEqual h g1 g2 = Inr False" by (simp add: areGridsEqual_def)
next
  show "areGridsEqual h (g1\<lparr>generation := n1\<rparr>) (g2\<lparr>generation := n2\<rparr>) = areGridsEqual h g1 g2"
    by (rule areGridsEqual_cong) simp_all
next
  show "areGridsEqual (h[c := (h ! c)\<lparr>neighbors := ns\<rparr>]) g1 g2 = areGridsEqual h g1 g2"
    by (rule areGridsEqual_cong) (simp_all add: update_neighbors_nth)
qed

theorem areGridsEqual_characterisation_witness:
  "grid_shape row3_grid \<and> grid_shape one_grid \<and>
   areGridsEqual row3_heap row3_grid (row3_grid\<lparr>generation := 5\<rparr>) = Inr True \<and>
   areGridsEqual row3_heap row3_grid one_grid = Inr False"
proof -
  have s: "grid_shape row3_grid" "grid_shape one_grid" by code_simp+
  note t1 = areGridsEqual_characterisation [of row3_grid row3_grid row3_heap 0 5 0 "[]"]
  note t2 = areGridsEqual_characterisation [of row3_grid one_grid row3_heap 0 7 0 "[]"]
  from t1 s(1) have "areGridsEqual row3_heap row3_grid row3_grid = Inr True"
    by simp
  moreover from t1 have "areGridsEqual row3_heap (row3_grid\<lparr>generation := 0\<rparr>) (row3_grid\<lparr>generation := 5\<rparr>)
      = areGridsEqual row3_heap row3_grid row3_grid"
    by blast
  moreover have "row3_grid\<lparr>generation := 0\<rparr> = row3_grid" by (simp add: row3_grid_def)
  moreover have "width row3_grid \<noteq> width one_grid \<or> height row3_grid \<noteq> height one_grid"
    by (simp add: row3_grid_def one_grid_def)
  with t2 have "areGridsEqual row3_heap row3_grid one_grid = Inr False" by blast
  ultimately show ?thesis using s by simp
qed




text \<open>
  C7, as stated, fails for a positive dimension that is no array length: with a height of
  \<open>2^32\<close> the constructor raises a RangeError instead of returning a grid of dead cells.
\<close>

theorem all_dead_stays_dead_counterexample:
  "createInitialGrid [] 1 4294967296 [] = Inl RangeError"
  by (simp add: createInitialGrid_def maxArrayLength_def)

text \<open>
  C7, amended. The next generation of a well-formed grid in which every cell is Dead is a
  grid in which every cell is Dead, and is equal to it in the sense of \<open>areGridsEqual\<close>. In
  particular, for every width and height from 1 to \<open>2^32 - 1\<close> the grid built from no alive
  cells has every cell Dead and is a fixed point of the step.
\<close>

theorem all_dead_stays_dead:
  "(grid_inv h g \<and> allDead h g \<longrightarrow>
      (\<exists>h' g'. createNextGeneration h g = Inr (h', g') \<and> allDead h' g' \<and>
         areGridsEqual h' g g' = Inr True)) \<and>
   (0 < w \<and> w \<le> maxArrayLength \<and> 0 < hg \<and> hg \<le> maxArrayLength \<longrightarrow>
      (\<exists>h1 g1 h2 g2. createInitialGrid h0 w hg [] = Inr (h1, g1) \<and> allDead h1 g1 \<and>
         createNextGeneration h1 g1 = Inr (h2, g2) \<and> allDead h2 g2 \<and>
         areGridsEqual h2 g1 g2 = Inr True))"
proof (intro conjI impI)
  assume "grid_inv h g \<and> allDead h g"
  then have "grid_inv h g" and "\<forall>r\<in>set (concat (cells g)). state (h ! r) = Dead"
    by (simp_all add: allDead_def)
  from createNextGeneration_all_dead [OF this]
  show "\<exists>h' g'. createNextGeneration h g = Inr (h', g') \<and> allDead h' g' \<and>
         areGridsEqual h' g g' = Inr True"
    unfolding allDead_def by blast
next
  assume a: "0 < w \<and> w \<le> maxArrayLength \<and> 0 < hg \<and> hg \<le> maxArrayLength"
  then have "0 \<le> hg" "hg \<le> maxArrayLength" "(0 \<le> w \<and> w \<le> maxArrayLength) \<or> hg = 0"
    and "\<forall>a\<in>set []. cell_x a < w \<and> cell_y a < hg \<longrightarrow> 0 \<le> cell_x a \<and> 0 \<le> cell_y a"
    by simp_all
  then have "\<exists>h1 g1. createInitialGrid h0 w hg [] = Inr (h1, g1)"
    by (rule createInitialGrid_total)
  then obtain h1 g1 where c: "createInitialGrid h0 w hg [] = Inr (h1, g1)" by blast
  note inv = createInitialGrid_built(1) [OF c]
  note dead = createInitialGrid_empty_dead [OF c]
  from createNextGeneration_all_dead [OF inv dead] obtain h2 g2 where
    "createNextGeneration h1 g1 = Inr (h2, g2)"
    "\<forall>r\<in>set (concat (cells g2)). state (h2 ! r) = Dead"
    "areGridsEqual h2 g1 g2 = Inr True"
    by blast
  with c dead show "\<exists>h1 g1 h2 g2. createInitialGrid h0 w hg [] = Inr (h1, g1) \<and> allDead h1 g1 \<and>
         createNextGeneration h1 g1 = Inr (h2, g2) \<and> allDead h2 g2 \<and>
         areGridsEqual h2 g1 g2 = Inr True"
    unfolding allDead_def by blast
qed

theorem all_dead_stays_dead_witness:
  "grid_inv dead3_heap row3_grid \<and> allDead dead3_heap row3_grid \<and>
   (\<exists>h' g'. createNextGeneration dead3_heap row3_grid = Inr (h', g') \<and> allDead h' g' \<and>
      areGridsEqual h' row3_grid g' = Inr True) \<and>
   (\<exists>h1 g1 h2 g2. createInitialGrid [] 4 3 [] = Inr (h1, g1) \<and> allDead h1 g1 \<and>
      createNextGeneration h1 g1 = Inr (h2, g2) \<and> allDead h2 g2 \<and>
      areGridsEqual h2 g1 g2 = Inr True)"
proof -
  note t = all_dead_stays_dead [of dead3_heap row3_grid 4 3 "[]"]
  have inv: "grid_inv dead3_heap row3_grid" by code_simp
  have dead: "allDead dead3_heap row3_grid" by code_simp
  have "(0::int) < 4 \<and> (4::int) \<le> maxArrayLength \<and> (0::int) < 3 \<and> (3::int) \<le> maxArrayLength"
    by (simp add: maxArrayLength_def)
  with t inv dead show ?thesis by blast
qed

text \<open>
  C8. The 2 by 2 block is a fixed point of the step: the 5 by 5 grid built with alive cells
  (1,1), (1,2), (2,1), (2,2) is equal, in the sense of \<open>areGridsEqual\<close>, to its next
  generation.
\<close>

theorem block_is_fixed_point:
  "\<exists>h g h' g'.
     createInitialGrid [] 5 5 [aliveAt 1 1, aliveAt 1 2, aliveAt 2 1, aliveAt 2 2] = Inr (h, g) \<and>
     createNextGeneration h g = Inr (h', g') \<and>
     areGridsEqual h' g g' = Inr True"
proof -
  have "(case createInitialGrid [] 5 5 [aliveAt 1 1, aliveAt 1 2, aliveAt 2 1, aliveAt 2 2] of
           Inl e \<Rightarrow> Inl e
         | Inr (h, g) \<Rightarrow>
             (case createNextGeneration h g of
                Inl e \<Rightarrow> Inl e
              | Inr (h', g') \<Rightarrow> areGridsEqual h' g g')) = Inr True"
    by code_simp
  then show ?thesis
    by (auto split: sum.splits prod.splits)
qed

theorem block_is_fixed_point_witness:
  "(case createInitialGrid [] 5 5 [aliveAt 1 1, aliveAt 1 2, aliveAt 2 1, aliveAt 2 2] of
      Inl e \<Rightarrow> Inl e
    | Inr (h, g) \<Rightarrow>
        (case createNextGeneration h g of
           Inl e \<Rightarrow> Inl e
         | Inr (h', g') \<Rightarrow> areGridsEqual h' g g')) = Inr True"
  using block_is_fixed_point by auto

text \<open>
  C9. The blinker has period 2: for the 5 by 5 grid built with alive cells (1,2), (2,2),
  (3,2), the second generation is equal to the grid, and the first generation is not.
\<close>

theorem blinker_has_period_two:
  "\<exists>h g h1 g1 h2 g2.
     createInitialGrid [] 5 5 [aliveAt 1 2, aliveAt 2 2, aliveAt 3 2] = Inr (h, g) \<and>
     createNextGeneration h g = Inr (h1, g1) \<and>
     createNextGeneration h1 g1 = Inr (h2, g2) \<and>
     areGridsEqual h2 g2 g = Inr True \<and>
     areGridsEqual h1 g g1 = Inr False"
proof -
  have "(case createInitialGrid [] 5 5 [aliveAt 1 2, aliveAt 2 2, aliveAt 3 2] of
           Inl e \<Rightarrow> Inl e
         | Inr (h, g) \<Rightarrow>
             (case createNextGeneration h g of
                Inl e \<Rightarrow> Inl e
              | Inr (h1, g1) \<Rightarrow>
                  (case createNextGeneration h1 g1 of
                     Inl e \<Rightarrow> Inl e
                   | Inr (h2, g2) \<Rightarrow>
                       (case areGridsEqual h2 g2 g of
                          Inl e \<Rightarrow> Inl e
                        | Inr b2 \<Rightarrow>
                            (case areGridsEqual h1 g g1 of
                               Inl e \<Rightarrow> Inl e
                             | Inr b1 \<Rightarrow> Inr (b2, b1)))))) = Inr (True, False)"
    by code_simp
  then show ?thesis
    by (auto split: sum.splits prod.splits)
qed

theorem blinker_has_period_two_witness:
  "(case createInitialGrid [] 5 5 [aliveAt 1 2, aliveAt 2 2, aliveAt 3 2] of
      Inl e \<Rightarrow> Inl e
    | Inr (h, g) \<Rightarrow>
        (case createNextGeneration h g of
           Inl e \<Rightarrow> Inl e
         | Inr (h1, g1) \<Rightarrow>
             (case createNextGeneration h1 g1 of
                Inl e \<Rightarrow> Inl e
              | Inr (h2, g2) \<Rightarrow>
                  (case areGridsEqual h2 g2 g of
                     Inl e \<Rightarrow> Inl e
                   | Inr b2 \<Rightarrow>
                       (case areGridsEqual h1 g g1 of
                          Inl e \<Rightarrow> Inl e
                        | Inr b1 \<Rightarrow> Inr (b2, b1)))))) = Inr (True, False)"
  using blinker_has_period_two by auto

text \<open>
  C10. Every grid that \<open>createInitialGrid\<close> returns satisfies the Grid invariant, with the
  width and height of the call, and consists of cells allocated by the call. The next
  generation of a grid that satisfies the invariant satisfies it too, has the same width
  and height, and consists of cells allocated by the step: the neighbor lists of the new
  grid contain cells of the new grid only, never a cell of the grid before.
\<close>

theorem grid_invariant:
  "(\<forall>h' g'. createInitialGrid h0 w hg aliveCells = Inr (h', g') \<longrightarrow>
      grid_inv h' g' \<and> width g' = w \<and> height g' = hg \<and>
      (\<forall>r\<in>set (concat (cells g')). length h0 \<le> r)) \<and>
   (grid_inv h g \<longrightarrow>
      (\<exists>h' g'. createNextGeneration h g = Inr (h', g') \<and>
         grid_inv h' g' \<and> width g' = width g \<and> height g' = height g \<and>
         (\<forall>r\<in>set (concat (cells g')). length h \<le> r)))"
proof (intro conjI impI allI)
  fix h' g' assume c: "createInitialGrid h0 w hg aliveCells = Inr (h', g')"
  note b = createInitialGrid_built [OF c]
  from b(1) show "grid_inv h' g'" .
  from b(2) show "width g' = w" by simp
  from b(2) show "height g' = hg" by simp
  from b(4) show "\<forall>r\<in>set (concat (cells g')). length h0 \<le> r" by simp
next
  assume inv: "grid_inv h g"
  obtain h' cs' where
    step: "createNextGeneration h g = Inr (h', g\<lparr>cells := cs', generation := addOne (generation g)\<rparr>)"
    and inv': "grid_inv h' (g\<lparr>cells := cs', generation := addOne (generation g)\<rparr>)"
    and "\<forall>y<length (cells g). \<forall>x<length (cells g ! y).
        state (h' ! (cs' ! y ! x)) = nextState h (cells g ! y ! x)"
    and cc: "concat cs' = [length h..<length h']"
    and "\<forall>q<length h. state (h' ! q) = state (h ! q)"
    by (rule createNextGeneration_stepped [OF inv])
  let ?g' = "g\<lparr>cells := cs', generation := addOne (generation g)\<rparr>"
  from cc have "\<forall>r\<in>set (concat (cells ?g')). length h \<le> r" by simp
  moreover have "width ?g' = width g" "height ?g' = height g" by simp_all
  ultimately show "\<exists>h' g'. createNextGeneration h g = Inr (h', g') \<and>
         grid_inv h' g' \<and> width g' = width g \<and> height g' = height g \<and>
         (\<forall>r\<in>set (concat (cells g')). length h \<le> r)"
    using step inv' by blast
qed

theorem grid_invariant_witness:
  "grid_inv row3_heap row3_grid \<and>
   (\<exists>h' g'. createNextGeneration row3_heap row3_grid = Inr (h', g') \<and>
      grid_inv h' g' \<and> width g' = 3 \<and> height g' = 1) \<and>
   (\<exists>h' g'. createInitialGrid [] 2 2 [aliveAt 0 1] = Inr (h', g') \<and>
      grid_inv h' g' \<and> width g' = 2 \<and> height g' = 2)"
proof -
  note t = grid_invariant [of "[]" 2 2 "[aliveAt 0 1]" row3_heap row3_grid]
  have inv: "grid_inv row3_heap row3_grid" by code_simp
  with t have "\<exists>h' g'. createNextGeneration row3_heap row3_grid = Inr (h', g') \<and>
      grid_inv h' g' \<and> width g' = width row3_grid \<and> height g' = height row3_grid"
    by blast
  then have 1: "\<exists>h' g'. createNextGeneration row3_heap row3_grid = Inr (h', g') \<and>
      grid_inv h' g' \<and> width g' = 3 \<and> height g' = 1"
    by (simp add: row3_grid_def)
  have "\<not> isl (createInitialGrid [] 2 2 [aliveAt 0 1])" by code_simp
  then obtain h' g' where c: "createInitialGrid [] 2 2 [aliveAt 0 1] = Inr (h', g')"
    by (cases "createInitialGrid [] 2 2 [aliveAt 0 1]") auto
  with t have "grid_inv h' g' \<and> width g' = 2 \<and> height g' = 2" by blast
  with c have 2: "\<exists>h' g'. createInitialGrid [] 2 2 [aliveAt 0 1] = Inr (h', g') \<and>
      grid_inv h' g' \<and> width g' = 2 \<and> height g' = 2"
    by blast
  from inv 1 2 show ?thesis by blast
qed

end
